(* ===== verification/Prelude.thy ===== *)
theory Prelude
  imports Main "HOL-Library.Word" "HOL-Library.Multiset" "HOL-Library.Char_ord"
begin

text \<open>
  Shared vocabulary of the development: the types that name the program's data (bytes, Go
  strings, 64-bit integers with the wrap-around written out), the three-valued outcome of an
  operation that can panic, sums over lists that are updated at one index, and executions of
  labelled transition systems with the rule that turns a one-step invariant into a fact about
  every execution.
\<close>

section \<open>Collections of facts\<close>

named_theorems wire_simps "facts that evaluate one field of the wire protocol"
named_theorems inv_intros "one-step preservation facts of the components"

section \<open>Bytes and strings\<close>

type_synonym byte = "8 word"
type_synonym bytes = "byte list"

text \<open>
  A Go string is a sequence of bytes, and so is a HOL string: \<^typ>\<open>char\<close> has 256 values. The
  conversions \<open>[]byte(s)\<close> and \<open>string(b)\<close> copy byte by byte.
\<close>

definition to_bytes :: "string \<Rightarrow> bytes" where
  "to_bytes s = map (\<lambda>c. word_of_nat (of_char c)) s"

definition of_bytes :: "bytes \<Rightarrow> string" where
  "of_bytes bs = map (\<lambda>b. char_of (unat b)) bs"

lemma length_to_bytes [simp]: "length (to_bytes s) = length s"
  by (simp add: to_bytes_def)

lemma length_of_bytes [simp]: "length (of_bytes bs) = length bs"
  by (simp add: of_bytes_def)

lemma of_char_lt_256: "(of_char c :: nat) < 256"
  using of_char_mod_256 [of c, where 'a = nat] mod_less_divisor [of 256 "of_char c"] by simp

lemma of_bytes_to_bytes [simp]: "of_bytes (to_bytes s) = s"
proof -
  have "char_of (unat (word_of_nat (of_char c) :: byte)) = c" for c :: char
    using of_char_lt_256 [of c] by (simp add: unat_of_nat)
  then show ?thesis
    by (induction s) (simp_all add: to_bytes_def of_bytes_def)
qed

lemma to_bytes_of_bytes [simp]: "to_bytes (of_bytes bs) = bs"
proof -
  have "(word_of_nat (of_char (char_of (unat b) :: char)) :: byte) = b" for b :: byte
  proof -
    have "unat b < 256" using unsigned_less [of b, where ?'a = nat] by simp
    then show ?thesis by simp
  qed
  then show ?thesis
    by (induction bs) (simp_all add: to_bytes_def of_bytes_def)
qed

lemma to_bytes_Nil [simp]: "to_bytes [] = []" "of_bytes [] = []"
  by (simp_all add: to_bytes_def of_bytes_def)

section \<open>64-bit signed integers\<close>

text \<open>
  Go's \<open>int64\<close> (and \<open>int\<close>, on the 64-bit Linux targets of this program) as \<^typ>\<open>int\<close> with the
  wrap-around of each arithmetic operation written out by \<open>i64\<close>.
\<close>

definition i64 :: "int \<Rightarrow> int" where
  "i64 x = signed_take_bit 63 x"

definition in_i64 :: "int \<Rightarrow> bool" where
  "in_i64 x \<longleftrightarrow> - (2 ^ 63) \<le> x \<and> x < 2 ^ 63"

lemma i64_id: "in_i64 x \<Longrightarrow> i64 x = x"
  by (simp add: i64_def in_i64_def signed_take_bit_int_eq_self)

lemma in_i64_i64 [simp]: "in_i64 (i64 x)"
  using signed_take_bit_int_greater_eq_minus_exp [of 63 x] signed_take_bit_int_less_exp [of 63 x]
  by (simp add: in_i64_def i64_def)

lemma i64_bounded: "- 9223372036854775808 \<le> x \<Longrightarrow> x < 9223372036854775808 \<Longrightarrow> i64 x = x"
  by (rule i64_id) (simp add: in_i64_def)

section \<open>Operations that can panic\<close>

datatype 'a outcome = Ret 'a | Panics

section \<open>Sums over a list updated at one index\<close>

lemma sum_list_map_update:
  fixes f :: "'a \<Rightarrow> 'b::comm_monoid_add"
  assumes "i < length xs"
  shows "sum_list (map f (xs[i := y])) + f (xs ! i) = sum_list (map f xs) + f y"
proof -
  have xs: "xs = take i xs @ xs ! i # drop (Suc i) xs"
    using assms by (simp add: id_take_nth_drop)
  have upd: "xs[i := y] = take i xs @ y # drop (Suc i) xs"
    using assms by (simp add: upd_conv_take_nth_drop)
  show ?thesis
    by (subst (3) xs, subst upd) (simp add: ac_simps)
qed

lemma sum_list_map_update_same:
  assumes "i < length xs" and "f y = f (xs ! i)"
  shows "sum_list (map f (xs[i := y])) = (sum_list (map f xs) :: 'b::cancel_comm_monoid_add)"
  using sum_list_map_update [of i xs f y] assms by simp

lemma sum_list_ge_elem:
  fixes f :: "'a \<Rightarrow> nat"
  assumes "x \<in> set xs"
  shows "f x \<le> sum_list (map f xs)"
  using assms member_le_sum_list [of "f x" "map f xs"] by simp

section \<open>Executions and invariants\<close>

text \<open>
  A labelled transition system is a predicate on start states and a step relation. An
  execution is the list of labels of its steps and the state it ends in, so a property of an
  execution can speak of the history (which message was accepted when) and of the state.
\<close>

inductive execution :: "('s \<Rightarrow> bool) \<Rightarrow> ('s \<Rightarrow> 'e \<Rightarrow> 's \<Rightarrow> bool) \<Rightarrow> 'e list \<Rightarrow> 's \<Rightarrow> bool"
  for init :: "'s \<Rightarrow> bool" and step :: "'s \<Rightarrow> 'e \<Rightarrow> 's \<Rightarrow> bool"
where
  exec_start: "init s \<Longrightarrow> execution init step [] s"
| exec_step: "execution init step es s \<Longrightarrow> step s e s' \<Longrightarrow> execution init step (es @ [e]) s'"

text \<open>
  The contract of an inductive invariant: what a component owes (the two assumptions) and what
  its clients get (the invariant on every execution). The invariant may mention the history.
\<close>

locale transition_invariant =
  fixes init :: "'s \<Rightarrow> bool"
    and step :: "'s \<Rightarrow> 'e \<Rightarrow> 's \<Rightarrow> bool"
    and holds :: "'e list \<Rightarrow> 's \<Rightarrow> bool"
  assumes start: "init s \<Longrightarrow> holds [] s"
    and preserved: "execution init step es s \<Longrightarrow> holds es s \<Longrightarrow> step s e s' \<Longrightarrow> holds (es @ [e]) s'"
begin

lemma always: "execution init step es s \<Longrightarrow> holds es s"
  by (induction rule: execution.induct) (auto intro: start preserved)

end

section \<open>Executable schedulers\<close>

text \<open>
  A scheduler performs the action it is given, if it can; a list of actions is then a concrete run
  that the simplifier evaluates, and a sound scheduler's runs are executions.
\<close>

fun run_all :: "('s \<Rightarrow> 'a \<Rightarrow> ('e \<times> 's) option) \<Rightarrow> 's \<Rightarrow> 'a list \<Rightarrow> ('e list \<times> 's) option" where
  "run_all perf s [] = Some ([], s)"
| "run_all perf s (a # as) =
     (case perf s a of
        None \<Rightarrow> None
      | Some (e, s') \<Rightarrow>
          (case run_all perf s' as of None \<Rightarrow> None | Some (es, s'') \<Rightarrow> Some (e # es, s'')))"

definition run_leads ::
    "('s \<Rightarrow> 'a \<Rightarrow> ('e \<times> 's) option) \<Rightarrow> 's \<Rightarrow> 'a list \<Rightarrow> ('e list \<Rightarrow> 's \<Rightarrow> bool) \<Rightarrow> bool" where
  "run_leads perf s as P = (case run_all perf s as of None \<Rightarrow> False | Some (es, s') \<Rightarrow> P es s')"

locale scheduler =
  fixes init :: "'s \<Rightarrow> bool"
    and step :: "'s \<Rightarrow> 'e \<Rightarrow> 's \<Rightarrow> bool"
    and perf :: "'s \<Rightarrow> 'a \<Rightarrow> ('e \<times> 's) option"
  assumes sound: "perf s a = Some (e, s') \<Longrightarrow> step s e s'"
begin

lemma run_execution:
  "execution init step es0 s \<Longrightarrow> run_all perf s as = Some (es, s') \<Longrightarrow> execution init step (es0 @ es) s'"
proof (induction as arbitrary: es0 s es)
  case Nil
  then show ?case by simp
next
  case (Cons a as)
  then obtain e s1 es1 where e: "perf s a = Some (e, s1)" "run_all perf s1 as = Some (es1, s')" "es = e # es1"
    by (auto split: option.splits)
  from Cons.IH [OF exec_step [OF Cons.prems(1) sound [OF e(1)]] e(2)] e(3) show ?case by simp
qed

lemma leads:
  assumes "run_leads perf s0 as P" and "init s0"
  obtains es s where "execution init step es s" and "P es s"
proof -
  from assms(1) obtain es s where "run_all perf s0 as = Some (es, s)" "P es s"
    by (auto simp: run_leads_def split: option.splits)
  moreover have "execution init step [] s0" using assms(2) by (rule exec_start)
  ultimately have "execution init step es s" using run_execution [of "[]" s0 as es s] by simp
  with \<open>P es s\<close> show thesis by (intro that)
qed

end

end
