(* ===== verification/GoErrors.thy ===== *)
theory GoErrors
  imports Prelude
begin

text \<open>
  The error values of the program. Every \<open>errors.New\<close> and \<open>fmt.Errorf\<close> of the modelled code is a
  constructor that keeps the arguments of its format, so that a branch of the code is a branch of
  the model; \<open>error_text\<close> renders an error as the code's \<open>Error()\<close> does, and \<open>go_is\<close> is
  \<open>errors.Is\<close>. The verb \<open>%q\<close> needs Go's Unicode tables, so the rendering takes the quoting function
  as an argument.
\<close>

section \<open>Error values\<close>

datatype errno = ENOENT | ECONNREFUSED | EINTR | Errno nat string

datatype goerr =
    EOF
  | ErrUnexpectedEOF
  | ErrClosed
  | DeadlineExceeded
  | Canceled
  | ErrTimeout
  | Syscall errno
  | OpError string goerr
  | Wrap string goerr
  | Text string
  | NoChannels
  | InvalidChannel string
  | PayloadTooLarge int
  | UnknownRequestOp string
  | UnknownOpByte nat
  | UnknownStatus nat
  | TooManyChannels nat
  | ChannelTooLong nat
  | StringTooLong nat
  | ErrorTooLong nat
  | FrameTooLarge nat int
  | NumSyntax string string
  | NumRange string string
  | InvalidDuration string
  | MissingUnit string
  | UnknownUnit string string

section \<open>Decimal rendering\<close>

definition digit_char :: "nat \<Rightarrow> char" where
  "digit_char d = char_of (48 + d)"

fun dec :: "nat \<Rightarrow> string" where
  "dec n = (if n < 10 then [digit_char n] else dec (n div 10) @ [digit_char (n mod 10)])"

declare dec.simps [simp del]

definition dec_int :: "int \<Rightarrow> string" where
  "dec_int i = (if i < 0 then CHR ''-'' # dec (nat (- i)) else dec (nat i))"

lemma dec_nonempty: "dec n \<noteq> []"
  by (subst dec.simps) simp

section \<open>Rendering\<close>

fun errno_text :: "errno \<Rightarrow> string" where
  "errno_text ENOENT = ''no such file or directory''"
| "errno_text ECONNREFUSED = ''connection refused''"
| "errno_text EINTR = ''interrupted system call''"
| "errno_text (Errno _ t) = t"

fun error_text :: "(string \<Rightarrow> string) \<Rightarrow> goerr \<Rightarrow> string" where
  "error_text q EOF = ''EOF''"
| "error_text q ErrUnexpectedEOF = ''unexpected EOF''"
| "error_text q ErrClosed = ''use of closed network connection''"
| "error_text q DeadlineExceeded = ''context deadline exceeded''"
| "error_text q Canceled = ''context canceled''"
| "error_text q ErrTimeout = ''timeout''"
| "error_text q (Syscall n) = errno_text n"
| "error_text q (OpError p e) = p @ '': '' @ error_text q e"
| "error_text q (Wrap p e) = p @ '': '' @ error_text q e"
| "error_text q (Text t) = t"
| "error_text q NoChannels = ''at least one channel is required''"
| "error_text q (InvalidChannel c) =
     ''invalid channel '' @ q c @ '': use [A-Za-z0-9._-], max length 128''"
| "error_text q (PayloadTooLarge m) =
     ''payload exceeds maximum size of '' @ dec_int m @ '' bytes''"
| "error_text q (UnknownRequestOp s) = ''unknown request op '' @ q s"
| "error_text q (UnknownOpByte b) = ''unknown request op '' @ dec b"
| "error_text q (UnknownStatus b) = ''unknown response status '' @ dec b"
| "error_text q (TooManyChannels n) = ''too many channels: '' @ dec n"
| "error_text q (ChannelTooLong n) = ''channel too long: '' @ dec n"
| "error_text q (StringTooLong n) = ''string too long: '' @ dec n"
| "error_text q (ErrorTooLong n) = ''error message too long: '' @ dec n"
| "error_text q (FrameTooLarge n m) = ''frame too large: '' @ dec n @ '' > '' @ dec_int m"
| "error_text q (NumSyntax f s) = ''strconv.'' @ f @ '': parsing '' @ q s @ '': invalid syntax''"
| "error_text q (NumRange f s) =
     ''strconv.'' @ f @ '': parsing '' @ q s @ '': value out of range''"
| "error_text q (InvalidDuration s) = ''time: invalid duration '' @ q s"
| "error_text q (MissingUnit s) = ''time: missing unit in duration '' @ q s"
| "error_text q (UnknownUnit u s) =
     ''time: unknown unit '' @ q u @ '' in duration '' @ q s"

section \<open>errors.Is\<close>

fun go_is :: "goerr \<Rightarrow> goerr \<Rightarrow> bool" where
  "go_is (Wrap p e) t = (Wrap p e = t \<or> go_is e t)"
| "go_is (OpError p e) t = (OpError p e = t \<or> go_is e t)"
| "go_is e t = (e = t)"

lemma go_is_refl [simp]: "go_is e e"
  by (cases e) simp_all

section \<open>Context errors (broker.go)\<close>

text \<open>
  \<open>timeoutFromContext\<close>: both ways a context ends are reported to the caller as \<open>ErrTimeout\<close>.
\<close>

definition timeoutFromContext :: "goerr \<Rightarrow> goerr" where
  "timeoutFromContext err =
     (if go_is err DeadlineExceeded \<or> go_is err Canceled then ErrTimeout else err)"

lemma timeoutFromContext_simps [simp]:
  "timeoutFromContext DeadlineExceeded = ErrTimeout"
  "timeoutFromContext Canceled = ErrTimeout"
  by (simp_all add: timeoutFromContext_def)

end
