(* ===== verification/GoIO.thy ===== *)
theory GoIO
  imports GoErrors
begin

text \<open>
  The parts of \<open>io\<close>, \<open>bufio\<close> and \<open>encoding/binary\<close> the program uses. A reader is the bytes the
  peer will ever send followed by the error the connection then reports (\<open>io.EOF\<close> for an orderly
  close); a writer is the 4096-byte buffer of \<open>bufio.Writer\<close>, the bytes handed to the connection
  so far, the error the connection answers a write with (\<open>None\<close> while it is healthy) and the
  writer's own sticky error.
\<close>

section \<open>Readers\<close>

record reader =
  rdata :: bytes
  rend :: goerr

type_synonym 'a rd = "reader \<Rightarrow> (goerr + 'a) \<times> reader"

definition rd_return :: "'a \<Rightarrow> 'a rd" where
  "rd_return x r = (Inr x, r)"

definition rd_fail :: "goerr \<Rightarrow> 'a rd" where
  "rd_fail e r = (Inl e, r)"

definition rd_bind :: "'a rd \<Rightarrow> ('a \<Rightarrow> 'b rd) \<Rightarrow> 'b rd" where
  "rd_bind m f r = (case m r of (Inl e, r') \<Rightarrow> (Inl e, r') | (Inr x, r') \<Rightarrow> f x r')"

text \<open>\<open>bufio.Reader.ReadByte\<close>.\<close>

definition readByte :: "byte rd" where
  "readByte r =
     (case rdata r of [] \<Rightarrow> (Inl (rend r), r) | b # bs \<Rightarrow> (Inr b, r\<lparr>rdata := bs\<rparr>))"

text \<open>
  \<open>io.ReadFull\<close> into a buffer of \<open>n\<close> bytes: nothing is read for \<open>n = 0\<close>; with no byte available the
  connection's error is returned as it is; a partial read turns \<open>io.EOF\<close> into
  \<open>io.ErrUnexpectedEOF\<close>.
\<close>

definition readFull :: "nat \<Rightarrow> bytes rd" where
  "readFull n r =
     (if n \<le> length (rdata r) then (Inr (take n (rdata r)), r\<lparr>rdata := drop n (rdata r)\<rparr>)
      else if rdata r = [] then (Inl (rend r), r)
      else (Inl (if rend r = EOF then ErrUnexpectedEOF else rend r), r\<lparr>rdata := []\<rparr>))"

section \<open>Big-endian integers\<close>

fun put_be :: "nat \<Rightarrow> nat \<Rightarrow> bytes" where
  "put_be 0 n = []"
| "put_be (Suc k) n = put_be k (n div 256) @ [word_of_nat n]"

definition get_be :: "bytes \<Rightarrow> nat" where
  "get_be bs = foldl (\<lambda>acc b. acc * 256 + unat b) 0 bs"

lemma length_put_be [simp]: "length (put_be k n) = k"
  by (induction k arbitrary: n) simp_all

lemma get_be_snoc [simp]: "get_be (bs @ [b]) = get_be bs * 256 + unat b"
  by (simp add: get_be_def)

lemma unat_byte_lt: "unat (b :: byte) < 256"
  using unsigned_less [of b, where ?'a = nat] by simp

lemma get_be_put_be: "n < 256 ^ k \<Longrightarrow> get_be (put_be k n) = n"
proof (induction k arbitrary: n)
  case 0
  then show ?case by (simp add: get_be_def)
next
  case (Suc k)
  from Suc.prems have "n div 256 < 256 ^ k"
    by (simp add: less_mult_imp_div_less mult.commute)
  then have "get_be (put_be k (n div 256)) = n div 256" by (rule Suc.IH)
  moreover have "unat (word_of_nat n :: byte) = n mod 256"
    by (simp add: unat_of_nat)
  ultimately show ?case by simp
qed

lemma put_be_get_be: "put_be (length bs) (get_be bs) = bs"
proof (induction bs rule: rev_induct)
  case Nil
  then show ?case by simp
next
  case (snoc b bs)
  have "(get_be bs * 256 + unat b) div 256 = get_be bs"
    using unat_byte_lt [of b] by simp
  moreover have "(word_of_nat (get_be bs * 256 + unat b) :: byte) = b"
  proof (rule word_unat_eq_iff [THEN iffD2])
    show "unat (word_of_nat (get_be bs * 256 + unat b) :: byte) = unat b"
      using unat_byte_lt [of b] by (simp add: unat_of_nat del: of_nat_add of_nat_mult)
  qed
  ultimately show ?case using snoc by simp
qed

lemma get_be_lt: "get_be bs < 256 ^ length bs"
proof (induction bs rule: rev_induct)
  case Nil
  then show ?case by (simp add: get_be_def)
next
  case (snoc b bs)
  then show ?case using unat_byte_lt [of b] by simp
qed

text \<open>\<open>binary.Read\<close> of a fixed-size integer is \<open>io.ReadFull\<close> of its size.\<close>

definition readUint16 :: "16 word rd" where
  "readUint16 = rd_bind (readFull 2) (\<lambda>bs. rd_return (word_of_nat (get_be bs)))"

definition readUint32 :: "32 word rd" where
  "readUint32 = rd_bind (readFull 4) (\<lambda>bs. rd_return (word_of_nat (get_be bs)))"

definition readInt64 :: "int rd" where
  "readInt64 = rd_bind (readFull 8) (\<lambda>bs. rd_return (sint (word_of_nat (get_be bs) :: 64 word)))"

section \<open>Writers\<close>

record writer =
  pending :: bytes
  sent :: bytes
  conn_err :: "goerr option"
  sticky :: "goerr option"

type_synonym wr = "writer \<Rightarrow> goerr option \<times> writer"

text \<open>\<open>bufio.NewWriter\<close> on a connection.\<close>

definition newWriter :: "goerr option \<Rightarrow> writer" where
  "newWriter ce = \<lparr>pending = [], sent = [], conn_err = ce, sticky = None\<rparr>"

definition bufsize :: nat where
  "bufsize = 4096"

text \<open>\<open>bufio.Writer.Flush\<close>.\<close>

definition bwFlush :: wr where
  "bwFlush w =
     (case sticky w of
        Some e \<Rightarrow> (Some e, w)
      | None \<Rightarrow>
          if pending w = [] then (None, w)
          else (case conn_err w of
                  Some e \<Rightarrow> (Some e, w\<lparr>sticky := Some e\<rparr>)
                | None \<Rightarrow> (None, w\<lparr>sent := sent w @ pending w, pending := []\<rparr>)))"

text \<open>
  \<open>bufio.Writer.Write\<close> and \<open>WriteString\<close>: while the data does not fit into what is left of the
  buffer, fill the buffer and flush it. \<open>Write\<close> (\<open>direct\<close>) hands data to the connection without
  copying when the buffer is empty; \<open>WriteString\<close> on a Unix socket does not.
\<close>

function bwPut :: "bool \<Rightarrow> bytes \<Rightarrow> wr" where
  "bwPut direct p w =
     (case sticky w of
        Some e \<Rightarrow> (Some e, w)
      | None \<Rightarrow>
          let avail = bufsize - length (pending w) in
          if length p \<le> avail then (None, w\<lparr>pending := pending w @ p\<rparr>)
          else if direct \<and> pending w = [] then
            (case conn_err w of
               Some e \<Rightarrow> (Some e, w\<lparr>sticky := Some e\<rparr>)
             | None \<Rightarrow> (None, w\<lparr>sent := sent w @ p\<rparr>))
          else
            (case conn_err w of
               Some e \<Rightarrow> (Some e, w\<lparr>pending := pending w @ take avail p, sticky := Some e\<rparr>)
             | None \<Rightarrow>
                 bwPut direct (drop avail p)
                   (w\<lparr>sent := sent w @ pending w @ take avail p, pending := []\<rparr>)))"
  by pat_completeness auto
termination
  by (relation "measure (\<lambda>(direct, p, w). 2 * length p + length (pending w))")
     (auto simp: bufsize_def)

declare bwPut.simps [simp del]

definition bwWrite :: "bytes \<Rightarrow> wr" where
  "bwWrite p = bwPut True p"

definition bwWriteString :: "string \<Rightarrow> wr" where
  "bwWriteString s = bwPut False (to_bytes s)"

definition bwWriteByte :: "byte \<Rightarrow> wr" where
  "bwWriteByte b = bwPut False [b]"

text \<open>\<open>binary.Write\<close> of a fixed-size integer writes its big-endian bytes in one call.\<close>

definition writeUint16 :: "16 word \<Rightarrow> wr" where
  "writeUint16 v = bwWrite (put_be 2 (unat v))"

definition writeUint32 :: "32 word \<Rightarrow> wr" where
  "writeUint32 v = bwWrite (put_be 4 (unat v))"

definition writeInt64 :: "int \<Rightarrow> wr" where
  "writeInt64 v = bwWrite (put_be 8 (unat (word_of_int v :: 64 word)))"

text \<open>\<open>if err := ...; err != nil { return err }\<close> before the next write.\<close>

definition wr_seq :: "wr \<Rightarrow> wr \<Rightarrow> wr" where
  "wr_seq m k w = (case m w of (Some e, w') \<Rightarrow> (Some e, w') | (None, w') \<Rightarrow> k w')"

definition wr_fail :: "goerr \<Rightarrow> wr" where
  "wr_fail e w = (Some e, w)"

section \<open>A healthy writer\<close>

text \<open>All the bytes written so far, on the connection or still in the buffer.\<close>

definition written :: "writer \<Rightarrow> bytes" where
  "written w = sent w @ pending w"

definition healthy :: "writer \<Rightarrow> bool" where
  "healthy w \<longleftrightarrow> conn_err w = None \<and> sticky w = None"

text \<open>\<open>emits m bs\<close>: on a healthy writer, \<open>m\<close> succeeds and appends exactly \<open>bs\<close>.\<close>

definition emits :: "wr \<Rightarrow> bytes \<Rightarrow> bool" where
  "emits m bs \<longleftrightarrow>
     (\<forall>w. healthy w \<longrightarrow> (\<exists>w'. m w = (None, w') \<and> healthy w' \<and> written w' = written w @ bs))"

lemma bwPut_healthy:
  "healthy w \<Longrightarrow> \<exists>w'. bwPut direct p w = (None, w') \<and> healthy w' \<and> written w' = written w @ p"
proof (induction direct p w rule: bwPut.induct)
  case (1 direct p w)
  define avail where "avail = bufsize - length (pending w)"
  from 1(2) have h: "sticky w = None" "conn_err w = None" by (simp_all add: healthy_def)
  consider (fits) "length p \<le> avail"
    | (direct) "\<not> length p \<le> avail" "direct" "pending w = []"
    | (loop) "\<not> length p \<le> avail" "\<not> (direct \<and> pending w = [])" by blast
  then show ?case
  proof cases
    case fits
    then show ?thesis
      using h by (simp add: bwPut.simps [of direct p w] avail_def Let_def healthy_def written_def)
  next
    case direct
    then show ?thesis
      using h by (simp add: bwPut.simps [of True p w] avail_def Let_def healthy_def written_def)
  next
    case loop
    let ?w = "w\<lparr>sent := sent w @ pending w @ take avail p, pending := []\<rparr>"
    have hw: "healthy ?w" using h by (simp add: healthy_def)
    have "\<exists>w'. bwPut direct (drop avail p) ?w = (None, w') \<and> healthy w'
             \<and> written w' = written ?w @ drop avail p"
      using 1(1) [OF h(1) avail_def loop h(2) hw] .
    then show ?thesis
      using h loop by (auto simp: bwPut.simps [of direct p w] avail_def Let_def written_def)
  qed
qed

lemma emits_bwWrite [wire_simps]: "emits (bwWrite p) p"
  unfolding emits_def bwWrite_def using bwPut_healthy by blast

lemma emits_bwWriteString [wire_simps]: "emits (bwWriteString s) (to_bytes s)"
  unfolding emits_def bwWriteString_def using bwPut_healthy by blast

lemma emits_bwWriteByte [wire_simps]: "emits (bwWriteByte b) [b]"
  unfolding emits_def bwWriteByte_def using bwPut_healthy by blast

lemma emits_wr_seq [intro]: "emits m bs \<Longrightarrow> emits k cs \<Longrightarrow> emits (wr_seq m k) (bs @ cs)"
  unfolding emits_def wr_seq_def by (metis (mono_tags, lifting) append.assoc case_prod_conv option.case(1))

text \<open>A flush of a healthy writer leaves nothing behind: everything is on the connection.\<close>

lemma bwFlush_healthy:
  "healthy w \<Longrightarrow> \<exists>w'. bwFlush w = (None, w') \<and> healthy w' \<and> sent w' = written w \<and> pending w' = []"
  by (simp add: bwFlush_def healthy_def written_def)

definition delivers :: "wr \<Rightarrow> bytes \<Rightarrow> bool" where
  "delivers m bs \<longleftrightarrow>
     (\<forall>w. healthy w \<longrightarrow>
        (\<exists>w'. m w = (None, w') \<and> healthy w' \<and> sent w' = written w @ bs \<and> pending w' = []))"

lemma delivers_flush: "emits m bs \<Longrightarrow> delivers (wr_seq m bwFlush) bs"
  unfolding emits_def delivers_def wr_seq_def
  by (metis (mono_tags, lifting) bwFlush_healthy case_prod_conv option.case(1))

end
