(* ===== verification/Codec.thy ===== *)
theory Codec
  imports GoIO
begin

text \<open>
  The contract between the writing and the reading half of a wire format, as a locale: reading a
  valid value's encoding gives the value back and leaves the rest of the stream alone, and
  whatever a read accepts is the encoding of a valid value. Prefix-freeness, the rejection of
  every truncated frame and the decoding of a sequence of frames follow once for all formats. The
  integers and byte blocks of \<open>encoding/binary\<close> are the first instances.
\<close>

section \<open>The contract\<close>

locale codec =
  fixes enc :: "'a \<Rightarrow> bytes"
    and rd :: "'a rd"
    and valid :: "'a \<Rightarrow> bool"
  assumes decode: "valid x \<Longrightarrow> rdata r = enc x @ s \<Longrightarrow> rd r = (Inr x, r\<lparr>rdata := s\<rparr>)"
    and accepts: "rd r = (Inr x, r') \<Longrightarrow> valid x \<and> rdata r = enc x @ rdata r' \<and> rend r' = rend r"
begin

lemma prefix_free:
  assumes "valid x" and "valid y" and "enc x @ s = enc y @ t"
  shows "x = y \<and> s = t"
proof -
  let ?r = "\<lparr>rdata = enc x @ s, rend = EOF\<rparr>"
  have "rd ?r = (Inr x, ?r\<lparr>rdata := s\<rparr>)" using assms(1) by (rule decode) simp
  moreover have "rd ?r = (Inr y, ?r\<lparr>rdata := t\<rparr>)" using assms(2) by (rule decode) (simp add: assms(3))
  ultimately show ?thesis by simp
qed

lemma truncated_rejected:
  assumes "valid x" and "enc x = p @ q" and "q \<noteq> []" and "rdata r = p"
  shows "\<exists>e r'. rd r = (Inl e, r')"
proof (cases "rd r")
  case (Pair res r')
  show ?thesis
  proof (cases res)
    case (Inl e)
    with Pair show ?thesis by blast
  next
    case (Inr y)
    with Pair have y: "valid y" "rdata r = enc y @ rdata r'"
      using accepts by blast+
    then have "enc x @ [] = enc y @ (rdata r' @ q)" using assms(2,4) by simp
    with assms(1) y(1) have "[] = rdata r' @ q" using prefix_free by blast
    with assms(3) show ?thesis by simp
  qed
qed

lemma decode_bind:
  "valid x \<Longrightarrow> rdata r = enc x @ s \<Longrightarrow> rd_bind rd f r = f x (r\<lparr>rdata := s\<rparr>)"
  by (simp add: rd_bind_def decode)

lemma accepts_bind:
  assumes "rd_bind rd f r = (Inr y, r')"
  obtains x r1 where "valid x" and "rdata r = enc x @ rdata r1" and "rend r1 = rend r"
    and "f x r1 = (Inr y, r')"
proof (cases "rd r")
  case (Pair res r1)
  with assms that show thesis
    by (cases res) (auto simp: rd_bind_def dest: accepts)
qed

end

section \<open>Reading a known number of values\<close>

text \<open>The loop \<open>for i := 0; i < n; i++ { v, err := read(r); ...; out = append(out, v) }\<close>.\<close>

fun readN :: "'a rd \<Rightarrow> nat \<Rightarrow> 'a list rd" where
  "readN rd 0 = rd_return []"
| "readN rd (Suc n) = rd_bind rd (\<lambda>x. rd_bind (readN rd n) (\<lambda>xs. rd_return (x # xs)))"

context codec begin

lemma readN_decode:
  assumes "\<forall>x \<in> set xs. valid x" and "rdata r = concat (map enc xs) @ s"
  shows "readN rd (length xs) r = (Inr xs, r\<lparr>rdata := s\<rparr>)"
  using assms
proof (induction xs arbitrary: r)
  case Nil
  then show ?case by (simp add: rd_return_def)
next
  case (Cons x xs)
  then have "readN rd (length xs) (r\<lparr>rdata := concat (map enc xs) @ s\<rparr>) = (Inr xs, r\<lparr>rdata := s\<rparr>)"
    by simp
  then show ?case
    using Cons.prems by (simp add: decode_bind [of x _ "concat (map enc xs) @ s"]) (simp add: rd_bind_def rd_return_def)
qed

lemma readN_accepts:
  assumes "readN rd n r = (Inr xs, r')"
  shows "length xs = n \<and> (\<forall>x \<in> set xs. valid x)
    \<and> rdata r = concat (map enc xs) @ rdata r' \<and> rend r' = rend r"
  using assms
proof (induction n arbitrary: r xs)
  case 0
  then show ?case by (simp add: rd_return_def)
next
  case (Suc n)
  from Suc.prems have "rd_bind rd (\<lambda>x. rd_bind (readN rd n) (\<lambda>xs. rd_return (x # xs))) r = (Inr xs, r')"
    by simp
  then obtain x r1 where x: "valid x" "rdata r = enc x @ rdata r1" "rend r1 = rend r"
    and rest: "rd_bind (readN rd n) (\<lambda>xs. rd_return (x # xs)) r1 = (Inr xs, r')"
    by (rule accepts_bind)
  from rest obtain ys where ys: "readN rd n r1 = (Inr ys, r')" "xs = x # ys"
    by (auto simp: rd_bind_def rd_return_def split: prod.splits sum.splits)
  from Suc.IH [OF ys(1)] x ys(2) show ?case by simp
qed

end

section \<open>The fixed-size formats\<close>

lemma readFull_accepts:
  "readFull n r = (Inr bs, r') \<Longrightarrow> length bs = n \<and> rdata r = bs @ rdata r' \<and> rend r' = rend r"
  by (auto simp: readFull_def split: if_splits)

interpretation block: codec "\<lambda>bs. bs" "readFull n" "\<lambda>bs. length bs = n" for n
  by unfold_locales (simp add: readFull_def, erule readFull_accepts)

lemma rd_map_accepts:
  assumes "rd_bind (readFull n) (\<lambda>bs. rd_return (g bs)) r = (Inr x, r')"
  obtains bs where "length bs = n" and "x = g bs" and "rdata r = bs @ rdata r'" and "rend r' = rend r"
  using assms by (rule block.accepts_bind) (auto simp: rd_return_def)

lemma rd_map_decode:
  "length bs = n \<Longrightarrow> rdata r = bs @ s \<Longrightarrow>
   rd_bind (readFull n) (\<lambda>bs. rd_return (g bs)) r = (Inr (g bs), r\<lparr>rdata := s\<rparr>)"
  by (simp add: block.decode_bind) (simp add: rd_return_def)

lemma unat_of_get_be:
  fixes w :: "'w::len word"
  assumes "LENGTH('w) = 8 * k"
  shows "get_be (put_be k (unat w)) = unat w"
  using unsigned_less [of w, where ?'a = nat] by (simp add: get_be_put_be assms power_mult)

lemma put_be_of_get_be:
  assumes "LENGTH('w::len) = 8 * length bs"
  shows "put_be (length bs) (unat (word_of_nat (get_be bs) :: 'w word)) = bs"
proof -
  have "unat (word_of_nat (get_be bs) :: 'w word) = get_be bs"
    using get_be_lt [of bs] by (simp add: unat_of_nat assms power_mult)
  then show ?thesis by (simp add: put_be_get_be)
qed

interpretation u16: codec "\<lambda>v :: 16 word. put_be 2 (unat v)" readUint16 "\<lambda>_. True"
proof
  fix v :: "16 word" and r :: reader and s
  assume "rdata r = put_be 2 (unat v) @ s"
  then show "readUint16 r = (Inr v, r\<lparr>rdata := s\<rparr>)"
    by (simp add: readUint16_def rd_map_decode [of "put_be 2 (unat v)"] unat_of_get_be)
next
  fix v :: "16 word" and r r' :: reader
  assume "readUint16 r = (Inr v, r')"
  then show "True \<and> rdata r = put_be 2 (unat v) @ rdata r' \<and> rend r' = rend r"
    unfolding readUint16_def
    by (rule rd_map_accepts) (use put_be_of_get_be [where 'w = 16] in fastforce)
qed

interpretation u32: codec "\<lambda>v :: 32 word. put_be 4 (unat v)" readUint32 "\<lambda>_. True"
proof
  fix v :: "32 word" and r :: reader and s
  assume "rdata r = put_be 4 (unat v) @ s"
  then show "readUint32 r = (Inr v, r\<lparr>rdata := s\<rparr>)"
    by (simp add: readUint32_def rd_map_decode [of "put_be 4 (unat v)"] unat_of_get_be)
next
  fix v :: "32 word" and r r' :: reader
  assume "readUint32 r = (Inr v, r')"
  then show "True \<and> rdata r = put_be 4 (unat v) @ rdata r' \<and> rend r' = rend r"
    unfolding readUint32_def
    by (rule rd_map_accepts) (use put_be_of_get_be [where 'w = 32] in fastforce)
qed

lemma sint_word_of_int64: "in_i64 v \<Longrightarrow> sint (word_of_int v :: 64 word) = v"
  by (simp only: sint_sbintrunc') (simp add: in_i64_def signed_take_bit_int_eq_self)

lemma in_i64_sint: "in_i64 (sint (w :: 64 word))"
  using sint_greater_eq [of w] sint_less [of w] by (simp add: in_i64_def)

interpretation s64: codec "\<lambda>v. put_be 8 (unat (word_of_int v :: 64 word))" readInt64 in_i64
proof
  fix v :: int and r :: reader and s
  assume v: "in_i64 v" and "rdata r = put_be 8 (unat (word_of_int v :: 64 word)) @ s"
  then show "readInt64 r = (Inr v, r\<lparr>rdata := s\<rparr>)"
    by (simp add: readInt64_def rd_map_decode [of "put_be 8 (unat (word_of_int v :: 64 word))"]
        unat_of_get_be sint_word_of_int64 [OF v])
next
  fix v :: int and r r' :: reader
  assume "readInt64 r = (Inr v, r')"
  then show "in_i64 v \<and> rdata r = put_be 8 (unat (word_of_int v :: 64 word)) @ rdata r'
      \<and> rend r' = rend r"
    unfolding readInt64_def
    by (rule rd_map_accepts) (use put_be_of_get_be [where 'w = 64] in_i64_sint in fastforce)
qed

lemma readByte_accepts: "readByte r = (Inr b, r') \<Longrightarrow> rdata r = b # rdata r' \<and> rend r' = rend r"
  by (auto simp: readByte_def split: list.splits)

interpretation u8: codec "\<lambda>b :: byte. [b]" readByte "\<lambda>_. True"
  by unfold_locales (simp add: readByte_def, auto dest: readByte_accepts)

end
