(* ===== verification/GoStrings.thy ===== *)
theory GoStrings
  imports GoErrors
begin

text \<open>
  The parts of \<open>regexp\<close>, \<open>strings\<close> and \<open>strconv\<close> the program uses, on byte strings: matching a
  pattern that is a sequence of counted character classes anchored at both ends, cutting a
  prefix, splitting at a separator, trimming white space, and parsing decimal integers.
\<close>

section \<open>regexp\<close>

text \<open>
  A pattern \<open>^C1{l1,h1}...Cn{ln,hn}$\<close>: each item is a character class, given by its ranges, with
  the least and the greatest number of repetitions. \<open>MatchString\<close> tries all ways to divide the
  string; outside multi-line mode \<open>$\<close> only matches at the end of the text. The classes used are
  ASCII, so matching bytes and matching UTF-8 code points agree.
\<close>

type_synonym char_class = "(char \<times> char) list"
type_synonym pattern = "(char_class \<times> nat \<times> nat) list"

definition in_class :: "char_class \<Rightarrow> char \<Rightarrow> bool" where
  "in_class cl c \<longleftrightarrow> list_ex (\<lambda>(lo, hi). lo \<le> c \<and> c \<le> hi) cl"

fun matchString :: "pattern \<Rightarrow> string \<Rightarrow> bool" where
  "matchString [] s = (s = [])"
| "matchString ((cl, lo, hi) # items) [] = (lo = 0 \<and> matchString items [])"
| "matchString ((cl, lo, hi) # items) (c # cs) =
     ((lo = 0 \<and> matchString items (c # cs))
      \<or> (0 < hi \<and> in_class cl c \<and> matchString ((cl, lo - 1, hi - 1) # items) cs))"

lemma matchString_last:
  "lo \<le> hi \<Longrightarrow> matchString [(cl, lo, hi)] s \<longleftrightarrow>
     lo \<le> length s \<and> length s \<le> hi \<and> (\<forall>c \<in> set s. in_class cl c)"
proof (induction s arbitrary: lo hi)
  case Nil
  then show ?case by simp
next
  case (Cons c cs)
  show ?case
  proof (cases hi)
    case 0
    with Cons.prems show ?thesis by simp
  next
    case (Suc h)
    with Cons.prems have "lo - 1 \<le> h" by simp
    from Cons.IH [OF this] show ?thesis using Suc by (cases lo) auto
  qed
qed

lemma matchString_once:
  "matchString ((cl, 1, 1) # items) s \<longleftrightarrow>
     (\<exists>c cs. s = c # cs \<and> in_class cl c \<and> matchString items cs)"
proof -
  have zero: "matchString ((cl, 0, 0) # items) t = matchString items t" for t
    by (cases t) simp_all
  show ?thesis by (cases s) (simp_all add: zero)
qed

section \<open>strings\<close>

text \<open>\<open>strings.CutPrefix\<close>.\<close>

definition cutPrefix :: "string \<Rightarrow> string \<Rightarrow> string \<times> bool" where
  "cutPrefix s p = (if take (length p) s = p then (drop (length p) s, True) else (s, False))"

lemma cutPrefix_append [simp]: "cutPrefix (p @ v) p = (v, True)"
  by (simp add: cutPrefix_def)

lemma cutPrefix_True: "cutPrefix s p = (v, True) \<longleftrightarrow> s = p @ v"
  by (auto simp: cutPrefix_def) (metis append_take_drop_id)

text \<open>\<open>strings.Split\<close> with a one-character separator: one more part than separators.\<close>

fun splitOn :: "char \<Rightarrow> string \<Rightarrow> string list" where
  "splitOn sep [] = [[]]"
| "splitOn sep (c # cs) =
     (if c = sep then [] # splitOn sep cs
      else (case splitOn sep cs of [] \<Rightarrow> [[c]] | p # ps \<Rightarrow> (c # p) # ps))"

lemma splitOn_nonempty [simp]: "splitOn sep s \<noteq> []"
  by (induction s) (auto split: list.splits)

lemma splitOn_free: "p \<in> set (splitOn sep s) \<Longrightarrow> sep \<notin> set p"
  by (induction s arbitrary: p) (auto split: list.splits if_splits)

lemma splitOn_no_sep: "sep \<notin> set p \<Longrightarrow> splitOn sep p = [p]"
  by (induction p) auto

lemma splitOn_append: "sep \<notin> set p \<Longrightarrow> splitOn sep (p @ sep # s) = p # splitOn sep s"
  by (induction p) auto

text \<open>
  \<open>strings.TrimSpace\<close>: the UTF-8 encodings of the code points \<open>unicode.IsSpace\<close> accepts. None is
  a prefix or a suffix of another, so removing a leading (trailing) one at a time is removing a
  leading (trailing) rune at a time.
\<close>

definition space_runes :: "string list" where
  "space_runes =
     map (map char_of)
       ([[9], [10], [11], [12], [13], [32], [194, 133], [194, 160], [225, 154, 128],
         [226, 128, 168], [226, 128, 169], [226, 128, 175], [226, 129, 159], [227, 128, 128]]
        @ map (\<lambda>k. [226, 128, 128 + k]) [0..<11])"

lemma space_runes_nonempty:
  "\<forall>r \<in> set space_runes. r \<noteq> []" "\<forall>r \<in> set (map rev space_runes). r \<noteq> []"
  by (auto simp: space_runes_def)

fun strip_first :: "string list \<Rightarrow> string \<Rightarrow> string option" where
  "strip_first [] s = None"
| "strip_first (r # rs) s =
     (if take (length r) s = r then Some (drop (length r) s) else strip_first rs s)"

lemma strip_first_shorter:
  "strip_first rs s = Some t \<Longrightarrow> \<forall>r \<in> set rs. r \<noteq> [] \<Longrightarrow> length t < length s"
proof (induction rs)
  case Nil
  then show ?case by simp
next
  case (Cons r rs)
  show ?case
  proof (cases "take (length r) s = r")
    case True
    then have "length r \<le> length s" by (metis length_take min.cobounded1)
    moreover have "0 < length r" using Cons.prems(2) by simp
    ultimately have "length s - length r < length s" by arith
    then show ?thesis using Cons.prems(1) True by auto
  next
    case False
    with Cons show ?thesis by simp
  qed
qed

function trimLeft :: "string \<Rightarrow> string" where
  "trimLeft s = (case strip_first space_runes s of None \<Rightarrow> s | Some t \<Rightarrow> trimLeft t)"
  by pat_completeness auto
termination
proof (relation "measure length")
  fix s t
  assume "strip_first space_runes s = Some t"
  from strip_first_shorter [OF this space_runes_nonempty(1)]
  show "(t, s) \<in> measure length" by simp
qed simp

function trimRightRev :: "string \<Rightarrow> string" where
  "trimRightRev s =
     (case strip_first (map rev space_runes) s of None \<Rightarrow> s | Some t \<Rightarrow> trimRightRev t)"
  by pat_completeness auto
termination
proof (relation "measure length")
  fix s t
  assume "strip_first (map rev space_runes) s = Some t"
  from strip_first_shorter [OF this space_runes_nonempty(2)]
  show "(t, s) \<in> measure length" by simp
qed simp

declare trimLeft.simps [simp del] trimRightRev.simps [simp del]

definition trimSpace :: "string \<Rightarrow> string" where
  "trimSpace s = rev (trimRightRev (rev (trimLeft s)))"

section \<open>strconv\<close>

definition digit_val :: "char \<Rightarrow> nat option" where
  "digit_val c =
     (let n = of_char c :: nat in if 48 \<le> n \<and> n \<le> 57 then Some (n - 48) else None)"

datatype num_res = Syntax | Range | Num int

text \<open>The digit loop of \<open>strconv.ParseUint(s, 10, 64)\<close>.\<close>

fun parseDigits :: "int \<Rightarrow> string \<Rightarrow> num_res" where
  "parseDigits acc [] = Num acc"
| "parseDigits acc (c # cs) =
     (case digit_val c of
        None \<Rightarrow> Syntax
      | Some d \<Rightarrow>
          if 2 ^ 64 \<le> acc * 10 + int d then Range else parseDigits (acc * 10 + int d) cs)"

text \<open>
  \<open>strconv.ParseInt(s, 10, 64)\<close>, and \<open>strconv.Atoi\<close> on a 64-bit platform, which differ only in
  the name their errors carry.
\<close>

definition parseInt :: "string \<Rightarrow> string \<Rightarrow> goerr + int" where
  "parseInt fn s =
     (let neg = (case s of c # _ \<Rightarrow> c = CHR ''-'' | [] \<Rightarrow> False);
          body = (case s of c # cs \<Rightarrow> if c = CHR ''-'' \<or> c = CHR ''+'' then cs else s | [] \<Rightarrow> [])
      in if body = [] then Inl (NumSyntax fn s)
         else (case parseDigits 0 body of
                 Syntax \<Rightarrow> Inl (NumSyntax fn s)
               | Range \<Rightarrow> Inl (NumRange fn s)
               | Num un \<Rightarrow>
                   if \<not> neg \<and> 2 ^ 63 \<le> un then Inl (NumRange fn s)
                   else if neg \<and> 2 ^ 63 < un then Inl (NumRange fn s)
                   else Inr (if neg then - un else un)))"

lemma digit_val_digit_char: "d < 10 \<Longrightarrow> digit_val (digit_char d) = Some d"
  by (simp add: digit_val_def digit_char_def)

lemma parseDigits_snoc:
  "parseDigits acc (s @ [c]) =
     (case parseDigits acc s of
        Num n \<Rightarrow> parseDigits n [c]
      | other \<Rightarrow> other)"
  by (induction acc s rule: parseDigits.induct) (simp_all split: option.splits)

lemma split_last_digit: "int (n div 10) * 10 + int (n mod 10) = int n"
  using div_mult_mod_eq [of n 10] by (metis of_nat_add of_nat_mult of_nat_numeral)

lemma parseDigits_dec: "n < 2 ^ 64 \<Longrightarrow> parseDigits 0 (dec n) = Num (int n)"
proof (induction n rule: dec.induct)
  case (1 n)
  show ?case
  proof (cases "n < 10")
    case True
    then show ?thesis by (subst dec.simps) (simp add: digit_val_digit_char)
  next
    case False
    with 1 have "parseDigits 0 (dec (n div 10)) = Num (int (n div 10))" by simp
    moreover note split_last_digit [of n]
    ultimately show ?thesis
      using False "1.prems" by (subst dec.simps) (simp add: parseDigits_snoc digit_val_digit_char)
  qed
qed

lemma dec_digits: "c \<in> set (dec n) \<Longrightarrow> digit_val c \<noteq> None"
proof (induction n rule: dec.induct)
  case (1 n)
  have "digit_val (digit_char (n mod 10)) \<noteq> None" by (simp add: digit_val_digit_char)
  then show ?case
    using 1 by (cases "n < 10") (auto simp: dec.simps [of n] digit_val_digit_char)
qed

lemma parseInt_dec:
  assumes "n < 2 ^ 63"
  shows "parseInt fn (dec n) = Inr (int n)"
proof -
  obtain c cs where d: "dec n = c # cs" using dec_nonempty [of n] by (cases "dec n") auto
  then have "digit_val c \<noteq> None" using dec_digits [of c n] by simp
  then have "c \<noteq> CHR ''-''" "c \<noteq> CHR ''+''" by (auto simp: digit_val_def)
  moreover have "parseDigits 0 (c # cs) = Num (int n)" using parseDigits_dec [of n] assms d by simp
  ultimately show ?thesis using assms d by (simp add: parseInt_def)
qed

lemma parseDigits_nonneg: "0 \<le> acc \<Longrightarrow> parseDigits acc s = Num n \<Longrightarrow> 0 \<le> n"
  by (induction acc s rule: parseDigits.induct) (auto split: option.splits if_splits)

lemma parseInt_in_i64: "parseInt fn s = Inr n \<Longrightarrow> in_i64 n"
  by (auto dest!: parseDigits_nonneg [OF order_refl] simp: parseInt_def Let_def in_i64_def split: if_splits num_res.splits)

end
