(* ===== verification/Validate.thy ===== *)
theory Validate
  imports GoStrings
begin

text \<open>
  Validation of channel names and payloads (\<open>main.go\<close>): the regular expression a channel name has
  to match and the size limit of a payload. \<open>None\<close> is Go's \<open>nil\<close> error.
\<close>

definition defaultMaxBytes :: int where
  "defaultMaxBytes = 268435456"  \<comment> \<open>\<open>256 << 20\<close>\<close>

definition channelPattern :: pattern where
  "channelPattern =
     [([(CHR ''A'', CHR ''Z''), (CHR ''a'', CHR ''z''), (CHR ''0'', CHR ''9'')], 1, 1),
      ([(CHR ''A'', CHR ''Z''), (CHR ''a'', CHR ''z''), (CHR ''0'', CHR ''9''),
        (CHR ''.'', CHR ''.''), (CHR ''_'', CHR ''_''), (CHR ''-'', CHR ''-'')], 0, 127)]"

definition validateChannel :: "string \<Rightarrow> goerr option" where
  "validateChannel channel =
     (if \<not> matchString channelPattern channel then Some (InvalidChannel channel) else None)"

definition validatePayload :: "bytes \<Rightarrow> int \<Rightarrow> goerr option" where
  "validatePayload payload maxBytes =
     (if int (length payload) > maxBytes then Some (PayloadTooLarge maxBytes) else None)"

text \<open>What the pattern means, without the pattern.\<close>

definition alnum :: "char \<Rightarrow> bool" where
  "alnum c \<longleftrightarrow> CHR ''A'' \<le> c \<and> c \<le> CHR ''Z'' \<or> CHR ''a'' \<le> c \<and> c \<le> CHR ''z''
     \<or> CHR ''0'' \<le> c \<and> c \<le> CHR ''9''"

definition valid_channel :: "string \<Rightarrow> bool" where
  "valid_channel s \<longleftrightarrow>
     s \<noteq> [] \<and> length s \<le> 128 \<and> alnum (hd s)
     \<and> (\<forall>c \<in> set s. alnum c \<or> c \<in> {CHR ''.'', CHR ''_'', CHR ''-''})"

lemma in_class_first:
  "in_class [(CHR ''A'', CHR ''Z''), (CHR ''a'', CHR ''z''), (CHR ''0'', CHR ''9'')] c \<longleftrightarrow> alnum c"
  by (simp add: in_class_def alnum_def)

lemma in_class_rest:
  "in_class [(CHR ''A'', CHR ''Z''), (CHR ''a'', CHR ''z''), (CHR ''0'', CHR ''9''),
     (CHR ''.'', CHR ''.''), (CHR ''_'', CHR ''_''), (CHR ''-'', CHR ''-'')] c \<longleftrightarrow>
   alnum c \<or> c \<in> {CHR ''.'', CHR ''_'', CHR ''-''}"
  by (auto simp add: in_class_def alnum_def)

lemma matches_channelPattern: "matchString channelPattern s \<longleftrightarrow> valid_channel s"
proof (cases s)
  case Nil
  then show ?thesis by (simp add: channelPattern_def valid_channel_def)
next
  case (Cons c cs)
  then show ?thesis
    unfolding channelPattern_def matchString_once in_class_first
    by (auto simp: matchString_last in_class_rest valid_channel_def)
qed

lemma validateChannel_None [simp]: "validateChannel c = None \<longleftrightarrow> valid_channel c"
  by (simp add: validateChannel_def matches_channelPattern)

lemma validateChannel_Some: "validateChannel c = Some e \<longleftrightarrow> \<not> valid_channel c \<and> e = InvalidChannel c"
  by (auto simp: validateChannel_def matches_channelPattern)

lemma validatePayload_None [simp]: "validatePayload p m = None \<longleftrightarrow> int (length p) \<le> m"
  by (auto simp: validatePayload_def)

text \<open>
  Property C27. A channel name is accepted exactly when it has 1 to 128 characters, starts with a
  letter or a digit and continues with letters, digits, dots, underscores and dashes; the error
  names the channel.
\<close>

theorem validateChannel_exact:
  "validateChannel s =
     (if s \<noteq> [] \<and> length s \<le> 128 \<and> alnum (hd s)
         \<and> (\<forall>c \<in> set s. alnum c \<or> c \<in> {CHR ''.'', CHR ''_'', CHR ''-''})
      then None else Some (InvalidChannel s))"
  by (simp add: validateChannel_def matches_channelPattern valid_channel_def)

lemma validateChannel_exact_witness:
  "validateChannel ''a.b_c-1'' = None \<and> validateChannel ''.a'' = Some (InvalidChannel ''.a'')"
  by (simp add: validateChannel_exact alnum_def)

end
