(* ===== verification/Protocol.thy ===== *)
theory Protocol
  imports Codec Validate
begin

text \<open>
  The wire protocol (\<open>protocol.go\<close>): requests and responses, the functions that write and read
  them in the order and with the checks of the code, and the frames they stand for. Each format is
  an instance of the \<open>codec\<close> contract.
\<close>

section \<open>Messages and constants\<close>

record request =
  reqOp :: string
  reqChannels :: "string list"
  reqPayload :: bytes
  reqTimeoutMS :: int

record response =
  respOK :: bool
  respChannel :: string
  respPayload :: bytes
  respError :: string

definition opPush :: byte where "opPush = 1"
definition opPop :: byte where "opPop = 2"
definition statusOK :: byte where "statusOK = 1"
definition statusError :: byte where "statusError = 2"
definition protocolMaxChannels :: nat where "protocolMaxChannels = 1024"
definition protocolMaxErrorSize :: int where "protocolMaxErrorSize = 65536"  \<comment> \<open>\<open>64 << 10\<close>\<close>

definition emptyResponse :: response where
  "emptyResponse = \<lparr>respOK = False, respChannel = [], respPayload = [], respError = []\<rparr>"

section \<open>Strings and byte blocks\<close>

definition writeString16 :: "string \<Rightarrow> wr" where
  "writeString16 value =
     (if length value > 65535 then wr_fail (StringTooLong (length value))
      else wr_seq (writeUint16 (word_of_nat (length value))) (bwWriteString value))"

definition writeString32 :: "string \<Rightarrow> wr" where
  "writeString32 value =
     wr_seq (writeUint32 (word_of_nat (length value))) (bwWriteString value)"

definition writeBytes32 :: "bytes \<Rightarrow> wr" where
  "writeBytes32 value =
     wr_seq (writeUint32 (word_of_nat (length value))) (bwWrite value)"

definition readString16 :: "string rd" where
  "readString16 =
     rd_bind readUint16 (\<lambda>n. rd_bind (readFull (unat n)) (\<lambda>buf. rd_return (of_bytes buf)))"

definition readBytes32 :: "int \<Rightarrow> bytes rd" where
  "readBytes32 maxLen =
     rd_bind readUint32 (\<lambda>n.
       if int (unat n) > maxLen then rd_fail (FrameTooLarge (unat n) maxLen)
       else if n = 0 then rd_return []
       else (\<lambda>r. case readFull (unat n) r of
                   (Inl e, r') \<Rightarrow> (Inl (if go_is e EOF then ErrUnexpectedEOF else e), r')
                 | (Inr buf, r') \<Rightarrow> (Inr buf, r')))"

definition readString32 :: "int \<Rightarrow> string rd" where
  "readString32 maxLen = rd_bind (readBytes32 maxLen) (\<lambda>buf. rd_return (of_bytes buf))"

section \<open>Requests\<close>

fun writeChannels :: "string list \<Rightarrow> wr" where
  "writeChannels [] = (\<lambda>w. (None, w))"
| "writeChannels (channel # rest) =
     (if length channel > 65535 then wr_fail (ChannelTooLong (length channel))
      else wr_seq (writeUint16 (word_of_nat (length channel)))
             (wr_seq (bwWriteString channel) (writeChannels rest)))"

definition writeRequest :: "request \<Rightarrow> wr" where
  "writeRequest req =
     (case (if reqOp req = ''push'' then Some opPush
            else if reqOp req = ''pop'' then Some opPop else None) of
        None \<Rightarrow> wr_fail (UnknownRequestOp (reqOp req))
      | Some op \<Rightarrow>
          if length (reqChannels req) > protocolMaxChannels
          then wr_fail (TooManyChannels (length (reqChannels req)))
          else if int (length (reqPayload req)) > defaultMaxBytes
          then wr_fail (PayloadTooLarge defaultMaxBytes)
          else
            wr_seq (wr_seq (bwWriteByte op)
              (wr_seq (writeInt64 (reqTimeoutMS req))
                (wr_seq (writeUint16 (word_of_nat (length (reqChannels req))))
                  (wr_seq (writeChannels (reqChannels req))
                    (wr_seq (writeUint32 (word_of_nat (length (reqPayload req))))
                      (bwWrite (reqPayload req)))))))
              bwFlush)"

definition readRequest :: "request rd" where
  "readRequest =
     rd_bind readByte (\<lambda>op.
     rd_bind readInt64 (\<lambda>timeoutMS.
     rd_bind readUint16 (\<lambda>channelCount.
       if unat channelCount > protocolMaxChannels
       then rd_fail (TooManyChannels (unat channelCount))
       else
         rd_bind (readN readString16 (unat channelCount)) (\<lambda>channels.
         rd_bind (readBytes32 defaultMaxBytes) (\<lambda>payload.
           if op = opPush
           then rd_return \<lparr>reqOp = ''push'', reqChannels = channels, reqPayload = payload,
                  reqTimeoutMS = timeoutMS\<rparr>
           else if op = opPop
           then rd_return \<lparr>reqOp = ''pop'', reqChannels = channels, reqPayload = payload,
                  reqTimeoutMS = timeoutMS\<rparr>
           else rd_fail (UnknownOpByte (unat op)))))))"

section \<open>Responses\<close>

definition writeResponse :: "response \<Rightarrow> wr" where
  "writeResponse resp =
     (let status = (if \<not> respOK resp then statusError else statusOK) in
      if int (length (respPayload resp)) > defaultMaxBytes
      then wr_fail (PayloadTooLarge defaultMaxBytes)
      else if length (respChannel resp) > 65535
      then wr_fail (ChannelTooLong (length (respChannel resp)))
      else if int (length (respError resp)) > protocolMaxErrorSize
      then wr_fail (ErrorTooLong (length (respError resp)))
      else
        wr_seq (wr_seq (bwWriteByte status)
          (wr_seq (writeString16 (respChannel resp))
            (wr_seq (writeBytes32 (respPayload resp))
              (writeString32 (respError resp)))))
          bwFlush)"

definition readResponse :: "response rd" where
  "readResponse =
     rd_bind readByte (\<lambda>status.
     rd_bind readString16 (\<lambda>channel.
     rd_bind (readBytes32 defaultMaxBytes) (\<lambda>payload.
     rd_bind (readString32 protocolMaxErrorSize) (\<lambda>errorText.
       if status = statusOK
       then rd_return \<lparr>respOK = True, respChannel = channel, respPayload = payload,
              respError = errorText\<rparr>
       else if status = statusError
       then rd_return \<lparr>respOK = False, respChannel = channel, respPayload = payload,
              respError = errorText\<rparr>
       else rd_fail (UnknownStatus (unat status))))))"

section \<open>Frames\<close>

definition string16_frame :: "string \<Rightarrow> bytes" where
  "string16_frame s = put_be 2 (length s) @ to_bytes s"

definition bytes32_frame :: "bytes \<Rightarrow> bytes" where
  "bytes32_frame b = put_be 4 (length b) @ b"

definition request_frame :: "request \<Rightarrow> bytes" where
  "request_frame req =
     [if reqOp req = ''push'' then opPush else opPop]
     @ put_be 8 (unat (word_of_int (reqTimeoutMS req) :: 64 word))
     @ put_be 2 (length (reqChannels req))
     @ concat (map string16_frame (reqChannels req))
     @ bytes32_frame (reqPayload req)"

definition response_frame :: "response \<Rightarrow> bytes" where
  "response_frame resp =
     [if respOK resp then statusOK else statusError]
     @ string16_frame (respChannel resp)
     @ bytes32_frame (respPayload resp)
     @ bytes32_frame (to_bytes (respError resp))"

definition valid_request :: "request \<Rightarrow> bool" where
  "valid_request req \<longleftrightarrow>
     (reqOp req = ''push'' \<or> reqOp req = ''pop'')
     \<and> in_i64 (reqTimeoutMS req)
     \<and> length (reqChannels req) \<le> protocolMaxChannels
     \<and> (\<forall>c \<in> set (reqChannels req). length c \<le> 65535)
     \<and> int (length (reqPayload req)) \<le> defaultMaxBytes"

definition valid_response :: "response \<Rightarrow> bool" where
  "valid_response resp \<longleftrightarrow>
     length (respChannel resp) \<le> 65535
     \<and> int (length (respPayload resp)) \<le> defaultMaxBytes
     \<and> int (length (respError resp)) \<le> protocolMaxErrorSize"

section \<open>Writing emits the frame\<close>

lemma unat_word_of_nat_16: "n \<le> 65535 \<Longrightarrow> unat (word_of_nat n :: 16 word) = n"
  by (simp add: unat_of_nat)

lemma unat_word_of_nat_32: "n < 4294967296 \<Longrightarrow> unat (word_of_nat n :: 32 word) = n"
  by (simp add: unat_of_nat)

lemma emits_uint16 [wire_simps]:
  "n \<le> 65535 \<Longrightarrow> emits (writeUint16 (word_of_nat n)) (put_be 2 n)"
  unfolding writeUint16_def by (metis emits_bwWrite unat_word_of_nat_16)

lemma emits_uint32 [wire_simps]:
  "n < 4294967296 \<Longrightarrow> emits (writeUint32 (word_of_nat n)) (put_be 4 n)"
  unfolding writeUint32_def by (metis emits_bwWrite unat_word_of_nat_32)

lemma emits_int64 [wire_simps]:
  "emits (writeInt64 v) (put_be 8 (unat (word_of_int v :: 64 word)))"
  unfolding writeInt64_def by (rule emits_bwWrite)

lemma emits_string16:
  "length s \<le> 65535 \<Longrightarrow> emits (writeString16 s) (string16_frame s)"
  by (simp add: writeString16_def string16_frame_def emits_wr_seq emits_uint16 emits_bwWriteString)

lemma emits_bytes32:
  "length b < 4294967296 \<Longrightarrow> emits (writeBytes32 b) (bytes32_frame b)"
  by (simp add: writeBytes32_def bytes32_frame_def emits_wr_seq emits_uint32 emits_bwWrite)

lemma emits_string32:
  "length s < 4294967296 \<Longrightarrow> emits (writeString32 s) (bytes32_frame (to_bytes s))"
  by (simp add: writeString32_def bytes32_frame_def emits_wr_seq emits_uint32 emits_bwWriteString)

lemma emits_channels:
  "\<forall>c \<in> set cs. length c \<le> 65535 \<Longrightarrow> emits (writeChannels cs) (concat (map string16_frame cs))"
proof (induction cs)
  case Nil
  then show ?case by (simp add: emits_def)
next
  case (Cons c cs)
  then have "emits (wr_seq (writeUint16 (word_of_nat (length c)))
      (wr_seq (bwWriteString c) (writeChannels cs)))
      (put_be 2 (length c) @ to_bytes c @ concat (map string16_frame cs))"
    by (intro emits_wr_seq emits_uint16 emits_bwWriteString) auto
  with Cons.prems show ?case by (simp add: string16_frame_def [of c])
qed

lemma writeRequest_delivers:
  assumes "valid_request req"
  shows "delivers (writeRequest req) (request_frame req)"
proof -
  let ?op = "if reqOp req = ''push'' then opPush else opPop"
  from assms have small: "length (reqPayload req) < 4294967296" "length (reqChannels req) \<le> 65535"
    by (simp_all add: valid_request_def defaultMaxBytes_def protocolMaxChannels_def)
  from assms have "writeRequest req =
      wr_seq (wr_seq (bwWriteByte ?op)
        (wr_seq (writeInt64 (reqTimeoutMS req))
          (wr_seq (writeUint16 (word_of_nat (length (reqChannels req))))
            (wr_seq (writeChannels (reqChannels req)) (writeBytes32 (reqPayload req))))))
        bwFlush"
    by (auto simp: writeRequest_def valid_request_def writeBytes32_def)
  moreover have "emits (wr_seq (bwWriteByte ?op)
        (wr_seq (writeInt64 (reqTimeoutMS req))
          (wr_seq (writeUint16 (word_of_nat (length (reqChannels req))))
            (wr_seq (writeChannels (reqChannels req)) (writeBytes32 (reqPayload req))))))
      (request_frame req)"
    unfolding request_frame_def
    by (intro emits_wr_seq emits_bwWriteByte emits_int64 emits_uint16 emits_channels emits_bytes32
        small) (use assms in \<open>simp add: valid_request_def\<close>)
  ultimately show ?thesis by (simp add: delivers_flush)
qed

lemma writeResponse_delivers:
  assumes "valid_response resp"
  shows "delivers (writeResponse resp) (response_frame resp)"
proof -
  let ?st = "if respOK resp then statusOK else statusError"
  from assms have small: "length (respPayload resp) < 4294967296"
      "length (respChannel resp) \<le> 65535" "length (respError resp) < 4294967296"
    by (simp_all add: valid_response_def defaultMaxBytes_def protocolMaxErrorSize_def)
  from assms have "writeResponse resp =
      wr_seq (wr_seq (bwWriteByte ?st)
        (wr_seq (writeString16 (respChannel resp))
          (wr_seq (writeBytes32 (respPayload resp)) (writeString32 (respError resp))))) bwFlush"
    by (simp add: writeResponse_def valid_response_def Let_def not_less)
  moreover have "emits (wr_seq (bwWriteByte ?st)
        (wr_seq (writeString16 (respChannel resp))
          (wr_seq (writeBytes32 (respPayload resp)) (writeString32 (respError resp)))))
      (response_frame resp)"
    unfolding response_frame_def
    by (intro emits_wr_seq emits_bwWriteByte emits_string16 emits_bytes32 emits_string32 small)
  ultimately show ?thesis by (simp add: delivers_flush)
qed

section \<open>Reading is a codec\<close>

interpretation string16: codec string16_frame readString16 "\<lambda>s. length s \<le> 65535"
proof
  fix s t and r :: reader
  assume s: "length s \<le> 65535" and r: "rdata r = string16_frame s @ t"
  let ?n = "word_of_nat (length s) :: 16 word"
  have n: "unat ?n = length s" using s by (rule unat_word_of_nat_16)
  with r have "readString16 r = rd_bind (readFull (unat ?n)) (\<lambda>buf. rd_return (of_bytes buf))
      (r\<lparr>rdata := to_bytes s @ t\<rparr>)"
    unfolding readString16_def by (intro u16.decode_bind) (simp_all add: string16_frame_def)
  also have "\<dots> = (Inr s, r\<lparr>rdata := t\<rparr>)"
    using n by (simp add: rd_map_decode [of "to_bytes s" "length s" _ t])
  finally show "readString16 r = (Inr s, r\<lparr>rdata := t\<rparr>)" .
next
  fix s and r r' :: reader
  assume "readString16 r = (Inr s, r')"
  then obtain n :: "16 word" and r1 where n: "rdata r = put_be 2 (unat n) @ rdata r1" "rend r1 = rend r"
    and rest: "rd_bind (readFull (unat n)) (\<lambda>buf. rd_return (of_bytes buf)) r1 = (Inr s, r')"
    unfolding readString16_def by (rule u16.accepts_bind)
  from rest obtain b where b: "length b = unat n" "s = of_bytes b" "rdata r1 = b @ rdata r'"
    "rend r' = rend r1"
    by (rule rd_map_accepts)
  moreover have "unat n \<le> 65535" using unsigned_less [of n, where ?'a = nat] by simp
  ultimately show "length s \<le> 65535 \<and> rdata r = string16_frame s @ rdata r' \<and> rend r' = rend r"
    using n by (simp add: string16_frame_def)
qed

lemma unat_lt_32: "unat (n :: 32 word) < 4294967296"
  using unsigned_less [of n, where ?'a = nat] by simp

interpretation bytes32: codec bytes32_frame "readBytes32 m"
  "\<lambda>b. int (length b) \<le> m \<and> length b < 4294967296" for m
proof
  fix b t and r :: reader
  assume b: "int (length b) \<le> m \<and> length b < 4294967296" and r: "rdata r = bytes32_frame b @ t"
  let ?n = "word_of_nat (length b) :: 32 word"
  have n: "unat ?n = length b" using b by (simp add: unat_word_of_nat_32)
  then have "?n = 0 \<longleftrightarrow> b = []" by (metis length_0_conv unat_eq_zero)
  then show "readBytes32 m r = (Inr b, r\<lparr>rdata := t\<rparr>)"
    unfolding readBytes32_def using b n r
    by (subst u32.decode_bind [where x = ?n and s = "b @ t"])
       (auto simp: bytes32_frame_def rd_return_def block.decode [where x = b and s = t])
next
  fix b and r r' :: reader
  assume "readBytes32 m r = (Inr b, r')"
  then obtain n :: "32 word" and r1 where n: "rdata r = put_be 4 (unat n) @ rdata r1" "rend r1 = rend r"
    and rest: "(if int (unat n) > m then rd_fail (FrameTooLarge (unat n) m)
       else if n = 0 then rd_return []
       else (\<lambda>r. case readFull (unat n) r of
                   (Inl e, r') \<Rightarrow> (Inl (if go_is e EOF then ErrUnexpectedEOF else e), r')
                 | (Inr buf, r') \<Rightarrow> (Inr buf, r'))) r1 = (Inr b, r')"
    unfolding readBytes32_def by (rule u32.accepts_bind)
  have "length b = unat n \<and> rdata r1 = b @ rdata r' \<and> rend r' = rend r1 \<and> int (unat n) \<le> m"
    using rest readFull_accepts [of "unat n" r1 b r']
    by (auto simp: rd_fail_def rd_return_def split: if_splits prod.splits sum.splits)
  then show "(int (length b) \<le> m \<and> length b < 4294967296)
      \<and> rdata r = bytes32_frame b @ rdata r' \<and> rend r' = rend r"
    using n unat_lt_32 [of n] by (simp add: bytes32_frame_def)
qed

interpretation string32: codec "\<lambda>s. bytes32_frame (to_bytes s)" "readString32 m"
  "\<lambda>s. int (length s) \<le> m \<and> length s < 4294967296" for m
proof
  fix s t and r :: reader
  assume "int (length s) \<le> m \<and> length s < 4294967296" and "rdata r = bytes32_frame (to_bytes s) @ t"
  then show "readString32 m r = (Inr s, r\<lparr>rdata := t\<rparr>)"
    unfolding readString32_def by (subst bytes32.decode_bind [where x = "to_bytes s" and s = t])
      (simp_all add: rd_return_def)
next
  fix s and r r' :: reader
  assume "readString32 m r = (Inr s, r')"
  then show "(int (length s) \<le> m \<and> length s < 4294967296)
      \<and> rdata r = bytes32_frame (to_bytes s) @ rdata r' \<and> rend r' = rend r"
    unfolding readString32_def by (rule bytes32.accepts_bind) (auto simp: rd_return_def)
qed

lemma readRequest_decode:
  fixes r :: reader
  assumes v: "valid_request req" and r: "rdata r = request_frame req @ s"
  shows "readRequest r = (Inr req, r\<lparr>rdata := s\<rparr>)"
proof -
  let ?op = "if reqOp req = ''push'' then opPush else opPop"
  let ?n = "word_of_nat (length (reqChannels req)) :: 16 word"
  define t4 where "t4 = bytes32_frame (reqPayload req) @ s"
  define t3 where "t3 = concat (map string16_frame (reqChannels req)) @ t4"
  define t2 where "t2 = put_be 2 (length (reqChannels req)) @ t3"
  define t1 where "t1 = put_be 8 (unat (word_of_int (reqTimeoutMS req) :: 64 word)) @ t2"
  have n: "unat ?n = length (reqChannels req)"
    using v by (intro unat_word_of_nat_16) (simp add: valid_request_def protocolMaxChannels_def)
  have fits: "\<not> unat ?n > protocolMaxChannels" using v n by (simp add: valid_request_def)
  have pay: "int (length (reqPayload req)) \<le> defaultMaxBytes \<and> length (reqPayload req) < 4294967296"
    using v by (simp add: valid_request_def defaultMaxBytes_def)
  have r0: "rdata r = [?op] @ t1"
    using r by (simp add: request_frame_def t1_def t2_def t3_def t4_def)
  have ch: "readN readString16 (unat ?n) (r\<lparr>rdata := t3\<rparr>) = (Inr (reqChannels req), r\<lparr>rdata := t4\<rparr>)"
    using string16.readN_decode [of "reqChannels req" "r\<lparr>rdata := t3\<rparr>" t4] v n
    by (simp add: t3_def valid_request_def)
  have rest: "rd_bind (readBytes32 defaultMaxBytes) f (r\<lparr>rdata := t4\<rparr>) = f (reqPayload req) (r\<lparr>rdata := s\<rparr>)"
    for f :: "bytes \<Rightarrow> request rd"
    using pay by (subst bytes32.decode_bind [where x = "reqPayload req" and s = s]) (simp_all add: t4_def)
  have "reqOp req = ''push'' \<or> reqOp req = ''pop''" and i: "in_i64 (reqTimeoutMS req)"
    using v by (simp_all add: valid_request_def)
  then show ?thesis
    unfolding readRequest_def
    by (subst u8.decode_bind [OF TrueI r0], subst s64.decode_bind [OF i, where s = t2],
        simp add: t1_def, subst u16.decode_bind [OF TrueI, where x = ?n and s = t3],
        simp add: t2_def n, subst if_not_P [OF fits], subst rd_bind_def)
       (auto simp: ch rest rd_return_def opPush_def opPop_def)
qed

lemma readRequest_accepts:
  fixes r r' :: reader
  assumes "readRequest r = (Inr req, r')"
  shows "valid_request req \<and> rdata r = request_frame req @ rdata r' \<and> rend r' = rend r"
proof -
  from assms obtain op t n and r1 r2 r3 :: reader where
      op: "rdata r = [op] @ rdata r1" "rend r1 = rend r" and
      t: "in_i64 t" "rdata r1 = put_be 8 (unat (word_of_int t :: 64 word)) @ rdata r2" "rend r2 = rend r1" and
      n: "rdata r2 = put_be 2 (unat (n :: 16 word)) @ rdata r3" "rend r3 = rend r2" and
      rest: "(if unat n > protocolMaxChannels then rd_fail (TooManyChannels (unat n))
       else rd_bind (readN readString16 (unat n)) (\<lambda>channels.
         rd_bind (readBytes32 defaultMaxBytes) (\<lambda>payload.
           if op = opPush
           then rd_return \<lparr>reqOp = ''push'', reqChannels = channels, reqPayload = payload,
                  reqTimeoutMS = t\<rparr>
           else if op = opPop
           then rd_return \<lparr>reqOp = ''pop'', reqChannels = channels, reqPayload = payload,
                  reqTimeoutMS = t\<rparr>
           else rd_fail (UnknownOpByte (unat op))))) r3 = (Inr req, r')"
    unfolding readRequest_def
    by (elim u8.accepts_bind s64.accepts_bind u16.accepts_bind) blast
  from rest have n_le: "unat n \<le> protocolMaxChannels"
    by (auto simp: rd_fail_def split: if_splits)
  with rest obtain cs and r4 :: reader where cs: "readN readString16 (unat n) r3 = (Inr cs, r4)" and
      rest: "rd_bind (readBytes32 defaultMaxBytes) (\<lambda>payload.
           if op = opPush
           then rd_return \<lparr>reqOp = ''push'', reqChannels = cs, reqPayload = payload,
                  reqTimeoutMS = t\<rparr>
           else if op = opPop
           then rd_return \<lparr>reqOp = ''pop'', reqChannels = cs, reqPayload = payload,
                  reqTimeoutMS = t\<rparr>
           else rd_fail (UnknownOpByte (unat op))) r4 = (Inr req, r')"
    by (auto simp: rd_bind_def [of "readN readString16 (unat n)"] split: prod.splits sum.splits)
  from rest obtain b and r5 :: reader where b: "int (length b) \<le> defaultMaxBytes" "rdata r4 = bytes32_frame b @ rdata r5"
      "rend r5 = rend r4" and
      fin: "(if op = opPush
           then rd_return \<lparr>reqOp = ''push'', reqChannels = cs, reqPayload = b, reqTimeoutMS = t\<rparr>
           else if op = opPop
           then rd_return \<lparr>reqOp = ''pop'', reqChannels = cs, reqPayload = b, reqTimeoutMS = t\<rparr>
           else rd_fail (UnknownOpByte (unat op))) r5 = (Inr req, r')"
    by (elim bytes32.accepts_bind) blast
  from string16.readN_accepts [OF cs] op t n n_le b fin show ?thesis
    by (auto simp: rd_return_def rd_fail_def valid_request_def request_frame_def opPush_def opPop_def
        split: if_splits)
qed

interpretation request: codec request_frame readRequest valid_request
  by unfold_locales (erule (1) readRequest_decode, rule readRequest_accepts)

lemma readResponse_decode:
  fixes r :: reader
  assumes v: "valid_response resp" and r: "rdata r = response_frame resp @ s"
  shows "readResponse r = (Inr resp, r\<lparr>rdata := s\<rparr>)"
proof -
  let ?st = "if respOK resp then statusOK else statusError"
  define t3 where "t3 = bytes32_frame (to_bytes (respError resp)) @ s"
  define t2 where "t2 = bytes32_frame (respPayload resp) @ t3"
  define t1 where "t1 = string16_frame (respChannel resp) @ t2"
  have r0: "rdata r = [?st] @ t1"
    using r by (simp add: response_frame_def t1_def t2_def t3_def)
  have c: "length (respChannel resp) \<le> 65535"
    and p: "int (length (respPayload resp)) \<le> defaultMaxBytes \<and> length (respPayload resp) < 4294967296"
    and e: "int (length (respError resp)) \<le> protocolMaxErrorSize \<and> length (respError resp) < 4294967296"
    using v by (simp_all add: valid_response_def defaultMaxBytes_def protocolMaxErrorSize_def)
  show ?thesis
    unfolding readResponse_def
    by (subst u8.decode_bind [OF TrueI r0], subst string16.decode_bind [OF c, where s = t2],
        simp add: t1_def, subst bytes32.decode_bind [OF p, where s = t3],
        simp add: t2_def, subst string32.decode_bind [OF e, where s = s], simp add: t3_def)
       (auto simp: rd_return_def statusOK_def statusError_def)
qed

lemma readResponse_accepts:
  fixes r r' :: reader
  assumes "readResponse r = (Inr resp, r')"
  shows "valid_response resp \<and> rdata r = response_frame resp @ rdata r' \<and> rend r' = rend r"
proof -
  from assms obtain st c p e and r1 r2 r3 r4 :: reader where
      "rdata r = [st] @ rdata r1" "rend r1 = rend r"
      "length c \<le> 65535" "rdata r1 = string16_frame c @ rdata r2" "rend r2 = rend r1"
      "int (length p) \<le> defaultMaxBytes" "rdata r2 = bytes32_frame p @ rdata r3" "rend r3 = rend r2"
      "int (length e) \<le> protocolMaxErrorSize"
      "rdata r3 = bytes32_frame (to_bytes e) @ rdata r4" "rend r4 = rend r3"
    and "(if st = statusOK
       then rd_return \<lparr>respOK = True, respChannel = c, respPayload = p, respError = e\<rparr>
       else if st = statusError
       then rd_return \<lparr>respOK = False, respChannel = c, respPayload = p, respError = e\<rparr>
       else rd_fail (UnknownStatus (unat st))) r4 = (Inr resp, r')"
    unfolding readResponse_def
    by (elim u8.accepts_bind string16.accepts_bind bytes32.accepts_bind string32.accepts_bind) blast
  then show ?thesis
    by (auto simp: rd_return_def rd_fail_def valid_response_def response_frame_def statusOK_def
        statusError_def split: if_splits)
qed

interpretation response: codec response_frame readResponse valid_response
  by unfold_locales (erule (1) readResponse_decode, rule readResponse_accepts)

end
