(* ===== verification/ProtocolProps.thy ===== *)
theory ProtocolProps
  imports Protocol
begin

text \<open>
  The properties of the wire protocol: what is written is read back, exactly the frames of valid
  messages are accepted, truncated frames are rejected, and a stream of requests is read back in
  order; and the one writer that leaves half a frame behind.
\<close>

section \<open>Round trips\<close>

text \<open>
  Property C18. Writing a valid request to a fresh connection succeeds, leaves nothing in the
  buffer, and the server reads back exactly that request, consuming exactly its bytes, whatever
  follows.
\<close>

theorem request_roundtrip:
  assumes "valid_request req"
  shows "\<exists>w. writeRequest req (newWriter None) = (None, w) \<and> pending w = []
    \<and> readRequest \<lparr>rdata = sent w @ rest, rend = e\<rparr> = (Inr req, \<lparr>rdata = rest, rend = e\<rparr>)"
proof -
  have "healthy (newWriter None)" by (simp add: healthy_def newWriter_def)
  with writeRequest_delivers [OF assms] obtain w where
    w: "writeRequest req (newWriter None) = (None, w)" "pending w = []" "sent w = request_frame req"
    by (auto simp: delivers_def newWriter_def written_def)
  with request.decode [OF assms, of "\<lparr>rdata = sent w @ rest, rend = e\<rparr>" rest] show ?thesis by simp
qed

definition sample_request :: request where
  "sample_request = \<lparr>reqOp = ''pop'', reqChannels = [''a'', ''b''], reqPayload = [], reqTimeoutMS = 250\<rparr>"

lemma sample_request_valid: "valid_request sample_request"
  by (simp add: valid_request_def sample_request_def in_i64_def protocolMaxChannels_def defaultMaxBytes_def)

lemma request_roundtrip_witness:
  "\<exists>w. writeRequest sample_request (newWriter None) = (None, w)
    \<and> readRequest \<lparr>rdata = sent w @ [9], rend = EOF\<rparr> = (Inr sample_request, \<lparr>rdata = [9], rend = EOF\<rparr>)"
  using request_roundtrip [OF sample_request_valid, of "[9]" EOF] by blast

text \<open>
  Fact. Writing a valid response succeeds, leaves nothing in the buffer, and the client
  reads back exactly that response and consumes exactly its bytes.
\<close>

lemma response_roundtrip:
  assumes "valid_response resp"
  shows "\<exists>w. writeResponse resp (newWriter None) = (None, w) \<and> pending w = []
    \<and> readResponse \<lparr>rdata = sent w @ rest, rend = e\<rparr> = (Inr resp, \<lparr>rdata = rest, rend = e\<rparr>)"
proof -
  have "healthy (newWriter None)" by (simp add: healthy_def newWriter_def)
  with writeResponse_delivers [OF assms] obtain w where
    w: "writeResponse resp (newWriter None) = (None, w)" "pending w = []" "sent w = response_frame resp"
    by (auto simp: delivers_def newWriter_def written_def)
  with response.decode [OF assms, of "\<lparr>rdata = sent w @ rest, rend = e\<rparr>" rest] show ?thesis by simp
qed

definition sample_response :: response where
  "sample_response = \<lparr>respOK = True, respChannel = ''a'', respPayload = [1, 2], respError = []\<rparr>"

lemma sample_response_valid: "valid_response sample_response"
  by (simp add: valid_response_def sample_response_def protocolMaxErrorSize_def defaultMaxBytes_def)

lemma response_roundtrip_witness:
  "\<exists>w. writeResponse sample_response (newWriter None) = (None, w)
    \<and> readResponse \<lparr>rdata = sent w @ [9], rend = EOF\<rparr> = (Inr sample_response, \<lparr>rdata = [9], rend = EOF\<rparr>)"
  using response_roundtrip [OF sample_response_valid, of "[9]" EOF] by blast

section \<open>Exactly the valid frames\<close>

text \<open>
  Property C19. The server's reader accepts an input as a request if and only if the input begins
  with the frame of that request and the request is within the limits; every other input is an
  error.
\<close>

theorem request_accepted_iff:
  "readRequest r = (Inr req, r') \<longleftrightarrow>
     valid_request req \<and> rdata r = request_frame req @ rdata r' \<and> rend r' = rend r"
proof
  assume "valid_request req \<and> rdata r = request_frame req @ rdata r' \<and> rend r' = rend r"
  then show "readRequest r = (Inr req, r')"
    using request.decode [of req r "rdata r'"] by simp
qed (rule request.accepts)

text \<open>
  Fact. The client's reader accepts an input as a response if and only if the input
  begins with the frame of that response and the response is within the limits.
\<close>

lemma response_accepted_iff:
  "readResponse r = (Inr resp, r') \<longleftrightarrow>
     valid_response resp \<and> rdata r = response_frame resp @ rdata r' \<and> rend r' = rend r"
proof
  assume "valid_response resp \<and> rdata r = response_frame resp @ rdata r' \<and> rend r' = rend r"
  then show "readResponse r = (Inr resp, r')"
    using response.decode [of resp r "rdata r'"] by simp
qed (rule response.accepts)

text \<open>
  Fact. A request frame cut off anywhere is an error, never a request.
\<close>

lemma truncated_frame_rejected:
  assumes "valid_request req" and "k < length (request_frame req)"
  shows "\<exists>err r'. readRequest \<lparr>rdata = take k (request_frame req), rend = e\<rparr> = (Inl err, r')"
  using assms
  by (intro request.truncated_rejected [OF assms(1), of "take k (request_frame req)" "drop k (request_frame req)"])
     simp_all

lemma truncated_frame_rejected_witness:
  "\<exists>err r'. readRequest \<lparr>rdata = take 5 (request_frame sample_request), rend = EOF\<rparr> = (Inl err, r')"
proof -
  have "5 < length (request_frame sample_request)"
    by (simp add: request_frame_def)
  with sample_request_valid show ?thesis by (rule truncated_frame_rejected)
qed

section \<open>Streams of requests\<close>

fun writeAll :: "request list \<Rightarrow> wr" where
  "writeAll [] = (\<lambda>w. (None, w))"
| "writeAll (req # reqs) = wr_seq (writeRequest req) (writeAll reqs)"

lemma writeAll_delivers:
  "\<forall>req \<in> set reqs. valid_request req \<Longrightarrow> healthy w \<Longrightarrow> pending w = [] \<Longrightarrow>
     \<exists>w'. writeAll reqs w = (None, w') \<and> sent w' = sent w @ concat (map request_frame reqs)"
proof (induction reqs arbitrary: w)
  case Nil
  then show ?case by simp
next
  case (Cons req reqs)
  then obtain w1 where w1: "writeRequest req w = (None, w1)" "healthy w1"
    "sent w1 = sent w @ request_frame req" "pending w1 = []"
    using writeRequest_delivers [of req] by (auto simp: delivers_def written_def)
  with Cons.IH [of w1] Cons.prems show ?case by (auto simp: wr_seq_def)
qed

text \<open>
  Fact. Requests written one after the other on one connection are read back one after
  the other, in order, with no byte left over.
\<close>

lemma request_stream_roundtrip:
  assumes "\<forall>req \<in> set reqs. valid_request req"
  shows "\<exists>w. writeAll reqs (newWriter None) = (None, w)
    \<and> readN readRequest (length reqs) \<lparr>rdata = sent w, rend = e\<rparr> = (Inr reqs, \<lparr>rdata = [], rend = e\<rparr>)"
proof -
  obtain w where w: "writeAll reqs (newWriter None) = (None, w)"
    "sent w = concat (map request_frame reqs)"
    using writeAll_delivers [OF assms, of "newWriter None"] by (auto simp: healthy_def newWriter_def)
  with request.readN_decode [OF assms, of "\<lparr>rdata = sent w, rend = e\<rparr>" "[]"] show ?thesis by simp
qed

lemma request_stream_roundtrip_witness:
  "\<exists>w. writeAll [sample_request, sample_request] (newWriter None) = (None, w)
    \<and> readN readRequest 2 \<lparr>rdata = sent w, rend = EOF\<rparr>
        = (Inr [sample_request, sample_request], \<lparr>rdata = [], rend = EOF\<rparr>)"
  using request_stream_roundtrip [of "[sample_request, sample_request]" EOF] sample_request_valid
  by (simp add: numeral_2_eq_2)

section \<open>Half a frame\<close>

lemma emits_then_fail:
  assumes "emits m bs" and "healthy w"
  shows "\<exists>w'. wr_seq m (wr_fail e) w = (Some e, w') \<and> healthy w' \<and> written w' = written w @ bs"
  using assms by (auto simp: emits_def wr_seq_def wr_fail_def)

lemma wr_seq_assoc: "wr_seq (wr_seq a b) c = wr_seq a (wr_seq b c)"
  by (rule ext) (simp add: wr_seq_def split: prod.splits option.splits)

lemma wr_seq_fail [simp]: "wr_seq (wr_fail e) k = wr_fail e"
  by (rule ext) (simp add: wr_seq_def wr_fail_def)

text \<open>
  Fact. Writing a request whose channel is longer than 65535 bytes fails after the head
  of the frame is in the writer's buffer; the next request on that connection succeeds and sends
  that head before its own frame.
\<close>

lemma long_channel_leaves_half_a_frame:
  assumes "65535 < length c" and "valid_request req" and "in_i64 t"
  shows "\<exists>w1 w2. writeRequest \<lparr>reqOp = ''push'', reqChannels = [c], reqPayload = [], reqTimeoutMS = t\<rparr>
        (newWriter None) = (Some (ChannelTooLong (length c)), w1)
    \<and> writeRequest req w1 = (None, w2)
    \<and> sent w2 = [opPush] @ put_be 8 (unat (word_of_int t :: 64 word)) @ put_be 2 1 @ request_frame req"
proof -
  let ?head = "wr_seq (bwWriteByte opPush) (wr_seq (writeInt64 t) (writeUint16 (word_of_nat 1)))"
  let ?bs = "[opPush] @ put_be 8 (unat (word_of_int t :: 64 word)) @ put_be 2 1"
  have "emits ?head ?bs"
    using emits_uint16 [of 1] by (intro emits_wr_seq wire_simps) (auto simp: emits_int64)
  then obtain w1 where w1: "wr_seq ?head (wr_fail (ChannelTooLong (length c))) (newWriter None)
      = (Some (ChannelTooLong (length c)), w1)" "healthy w1" "written w1 = ?bs"
    using emits_then_fail [of ?head ?bs "newWriter None"]
    by (auto simp: healthy_def newWriter_def written_def)
  moreover have "writeRequest \<lparr>reqOp = ''push'', reqChannels = [c], reqPayload = [], reqTimeoutMS = t\<rparr>
      = wr_seq ?head (wr_fail (ChannelTooLong (length c)))"
    using assms(1) by (simp add: writeRequest_def protocolMaxChannels_def defaultMaxBytes_def wr_seq_assoc)
  moreover obtain w2 where "writeRequest req w1 = (None, w2)" "sent w2 = written w1 @ request_frame req"
    using writeRequest_delivers [OF assms(2)] w1(2) by (auto simp: delivers_def)
  ultimately show ?thesis by auto
qed

lemma long_channel_leaves_half_a_frame_witness:
  "\<exists>w1 w2. writeRequest \<lparr>reqOp = ''push'', reqChannels = [replicate 65536 CHR ''a''], reqPayload = [], reqTimeoutMS = 0\<rparr>
        (newWriter None) = (Some (ChannelTooLong 65536), w1)
    \<and> writeRequest sample_request w1 = (None, w2)
    \<and> sent w2 = [opPush] @ put_be 8 0 @ put_be 2 1 @ request_frame sample_request"
  using long_channel_leaves_half_a_frame [of "replicate 65536 CHR ''a''" sample_request 0] sample_request_valid
  by (simp add: in_i64_def)

end
