(* ===== verification/Broker.thy ===== *)
theory Broker
  imports Validate
begin

text \<open>
  The broker's data and the code between \<open>b.mu.Lock()\<close> and \<open>b.mu.Unlock()\<close> (\<open>broker.go\<close>): each
  critical section is one function on the broker's state. Channel signalling is written out: the
  drain signals are numbered in the order \<open>make(chan struct{})\<close> creates them, \<open>signals\<close> says of each
  whether it is closed, and closing a closed channel is a panic. A waiter's number stands for its
  pointer and for the reply channel made with it.
\<close>

section \<open>State\<close>

record delivery =
  dChannel :: string
  dPayload :: bytes

record waiter =
  wId :: nat
  wChannels :: "string list"

record broker =
  queues :: "string \<rightharpoonup> bytes list"
  waiters :: "waiter list"
  maxBytes :: int
  queuedBytes :: int
  maxQueuedBytes :: int
  drainSignal :: nat
  signals :: "bool list"
  onBlock :: bool

definition NewBroker :: "int \<Rightarrow> int \<Rightarrow> broker" where
  "NewBroker maxB maxQ =
     \<lparr>queues = Map.empty, waiters = [], maxBytes = maxB, queuedBytes = 0, maxQueuedBytes = maxQ,
      drainSignal = 0, signals = [False], onBlock = False\<rparr>"

definition SetOnBlock :: "broker \<Rightarrow> bool \<Rightarrow> broker" where
  "SetOnBlock b fn = b\<lparr>onBlock := fn\<rparr>"

text \<open>Reading a Go map: an absent key gives the zero value, here the empty slice.\<close>

definition queueOf :: "broker \<Rightarrow> string \<Rightarrow> bytes list" where
  "queueOf b c = (case queues b c of None \<Rightarrow> [] | Some q \<Rightarrow> q)"

text \<open>\<open>close(ch)\<close>.\<close>

definition closeChan :: "bool list \<Rightarrow> nat \<Rightarrow> bool list option" where
  "closeChan sigs i = (if i < length sigs \<and> \<not> sigs ! i then Some (sigs[i := True]) else None)"

section \<open>Waiters\<close>

definition waiterMatches :: "waiter \<Rightarrow> string \<Rightarrow> bool" where
  "waiterMatches w channel = list_ex (\<lambda>candidate. candidate = channel) (wChannels w)"

text \<open>
  \<open>copy(ws[i:], ws[i+1:])\<close> shifts the tail left by one and leaves the last element in place, which
  the final slice \<open>ws[:last]\<close> cuts off.
\<close>

definition removeAt :: "'a list \<Rightarrow> nat \<Rightarrow> 'a list" where
  "removeAt ws i =
     (let last = length ws - 1;
          copied = take i ws @ drop (i + 1) ws @ drop last ws
      in take last copied)"

definition removeWaiterAtLocked :: "broker \<Rightarrow> nat \<Rightarrow> broker" where
  "removeWaiterAtLocked b i = b\<lparr>waiters := removeAt (waiters b) i\<rparr>"

fun waiterIndex :: "nat \<Rightarrow> waiter list \<Rightarrow> nat \<Rightarrow> nat option" where
  "waiterIndex i [] target = None"
| "waiterIndex i (w # ws) target =
     (if wId w \<noteq> target then waiterIndex (i + 1) ws target else Some i)"

definition removeWaiterLocked :: "broker \<Rightarrow> nat \<Rightarrow> bool \<times> broker" where
  "removeWaiterLocked b target =
     (case waiterIndex 0 (waiters b) target of
        None \<Rightarrow> (False, b)
      | Some i \<Rightarrow> (True, removeWaiterAtLocked b i))"

section \<open>Push\<close>

text \<open>The loop over \<open>b.waiters\<close> at the head of \<open>push\<close>.\<close>

fun findWaiter :: "nat \<Rightarrow> waiter list \<Rightarrow> string \<Rightarrow> (nat \<times> waiter) option" where
  "findWaiter i [] channel = None"
| "findWaiter i (w # ws) channel =
     (if \<not> waiterMatches w channel then findWaiter (i + 1) ws channel else Some (i, w))"

text \<open>
  One pass of the loop of \<open>push\<close> under the lock: hand the message to a waiter, queue it, or find the
  queue full (with the drain signal to wait for and the arguments of the \<open>onBlock\<close> callback).
\<close>

datatype push_outcome =
    Handoff nat delivery
  | Enqueued
  | Full nat int int bool

definition pushLocked :: "broker \<Rightarrow> string \<Rightarrow> bytes \<Rightarrow> push_outcome \<times> broker" where
  "pushLocked b channel payload =
     (let size = i64 (int (length payload)) in
      case findWaiter 0 (waiters b) channel of
        Some (i, w) \<Rightarrow>
          (Handoff (wId w) \<lparr>dChannel = channel, dPayload = payload\<rparr>, removeWaiterAtLocked b i)
      | None \<Rightarrow>
          if i64 (queuedBytes b + size) \<le> maxQueuedBytes b then
            (Enqueued,
             b\<lparr>queues := (queues b)(channel \<mapsto> queueOf b channel @ [payload]),
               queuedBytes := i64 (queuedBytes b + size)\<rparr>)
          else (Full (drainSignal b) (queuedBytes b) (maxQueuedBytes b) (onBlock b), b))"

text \<open>The checks of \<open>push\<close> before it takes the lock.\<close>

definition pushCheck :: "broker \<Rightarrow> string \<Rightarrow> bytes \<Rightarrow> goerr option" where
  "pushCheck b channel payload =
     (case validateChannel channel of
        Some err \<Rightarrow> Some err
      | None \<Rightarrow> validatePayload payload (maxBytes b))"

section \<open>Pop\<close>

fun popQueuedLocked :: "broker \<Rightarrow> string list \<Rightarrow> (delivery option \<times> broker) outcome" where
  "popQueuedLocked b [] = Ret (None, b)"
| "popQueuedLocked b (channel # rest) =
     (case queueOf b channel of
        [] \<Rightarrow> popQueuedLocked b rest
      | payload # queue \<Rightarrow>
          let qs = (if queue = [] then (queues b)(channel := None)
                    else (queues b)(channel \<mapsto> queue))
          in (case closeChan (signals b) (drainSignal b) of
                None \<Rightarrow> Panics
              | Some sigs \<Rightarrow>
                  Ret (Some \<lparr>dChannel = channel, dPayload = payload\<rparr>,
                       b\<lparr>queues := qs,
                         queuedBytes := i64 (queuedBytes b - i64 (int (length payload))),
                         signals := sigs @ [False],
                         drainSignal := length sigs\<rparr>)))"

fun firstInvalid :: "string list \<Rightarrow> goerr option" where
  "firstInvalid [] = None"
| "firstInvalid (c # cs) =
     (case validateChannel c of Some err \<Rightarrow> Some err | None \<Rightarrow> firstInvalid cs)"

definition popCheck :: "string list \<Rightarrow> goerr option" where
  "popCheck channels = (if channels = [] then Some NoChannels else firstInvalid channels)"

datatype pop_outcome =
    PopGot delivery
  | PopFailed goerr
  | PopParked nat

text \<open>
  The critical section of \<open>Pop\<close>: a queued message, the context's error, or a new waiter, whose
  number is the next one the allocator gives.
\<close>

definition popLocked ::
    "broker \<Rightarrow> string list \<Rightarrow> goerr option \<Rightarrow> nat \<Rightarrow> (pop_outcome \<times> broker) outcome" where
  "popLocked b channels ctxErr new =
     (case popQueuedLocked b channels of
        Panics \<Rightarrow> Panics
      | Ret (Some msg, b') \<Rightarrow> Ret (PopGot msg, b')
      | Ret (None, b') \<Rightarrow>
          (case ctxErr of
             Some err \<Rightarrow> Ret (PopFailed (timeoutFromContext err), b')
           | None \<Rightarrow>
               Ret (PopParked new,
                    b'\<lparr>waiters := waiters b' @ [\<lparr>wId = new, wChannels = channels\<rparr>]\<rparr>)))"

end
