(* ===== verification/BrokerInv.thy ===== *)
theory BrokerInv
  imports Broker
begin

text \<open>
  What the broker's critical sections guarantee: the invariant of its state (the byte count is the
  exact total of the queued payloads and stays within the cap without wrapping, no empty queue is
  kept, the current drain signal is the only open one, nobody waits for a channel that has a
  message), its preservation by each critical section, and the contract of a first-in first-out
  message store, which the broker's queues implement.
\<close>

section \<open>Waiters\<close>

lemma waiterMatches_iff: "waiterMatches w c \<longleftrightarrow> c \<in> set (wChannels w)"
  by (auto simp: waiterMatches_def list_ex_iff)

lemma removeAt_split: "removeAt (us @ w # vs) (length us) = us @ vs"
  by (simp add: removeAt_def Let_def)

lemma removeAt_eq: "i < length ws \<Longrightarrow> removeAt ws i = take i ws @ drop (Suc i) ws"
  by (metis id_take_nth_drop length_take min.absorb2 nat_less_le removeAt_split)

lemma findWaiter_Some:
  "findWaiter k ws c = Some (i, w) \<Longrightarrow>
     \<exists>us vs. ws = us @ w # vs \<and> i = k + length us \<and> c \<in> set (wChannels w)
       \<and> (\<forall>u \<in> set us. c \<notin> set (wChannels u))"
proof (induction ws arbitrary: k)
  case Nil
  then show ?case by simp
next
  case (Cons v ws)
  show ?case
  proof (cases "waiterMatches v c")
    case True
    with Cons.prems show ?thesis
      by (intro exI [of _ "[]"] exI [of _ ws]) (auto simp: waiterMatches_iff)
  next
    case False
    with Cons.prems have "findWaiter (k + 1) ws c = Some (i, w)" by simp
    from Cons.IH [OF this] obtain us vs where "ws = us @ w # vs" "i = k + 1 + length us"
      "c \<in> set (wChannels w)" "\<forall>u \<in> set us. c \<notin> set (wChannels u)" by blast
    with False show ?thesis
      by (intro exI [of _ "v # us"] exI [of _ vs]) (auto simp: waiterMatches_iff)
  qed
qed

lemma findWaiter_None: "findWaiter k ws c = None \<longleftrightarrow> (\<forall>w \<in> set ws. c \<notin> set (wChannels w))"
  by (induction ws arbitrary: k) (auto simp: waiterMatches_iff)

lemma waiterIndex_Some:
  "waiterIndex k ws t = Some i \<Longrightarrow>
     \<exists>us w vs. ws = us @ w # vs \<and> i = k + length us \<and> wId w = t \<and> t \<notin> wId ` set us"
proof (induction ws arbitrary: k)
  case Nil
  then show ?case by simp
next
  case (Cons v ws)
  show ?case
  proof (cases "wId v = t")
    case True
    with Cons.prems show ?thesis by (intro exI [of _ "[]"]) auto
  next
    case False
    with Cons.prems have "waiterIndex (k + 1) ws t = Some i" by simp
    from Cons.IH [OF this] obtain us w vs where "ws = us @ w # vs" "i = k + 1 + length us"
      "wId w = t" "t \<notin> wId ` set us" by blast
    with False show ?thesis
      by (intro exI [of _ "v # us"] exI [of _ w] exI [of _ vs]) auto
  qed
qed

lemma waiterIndex_None: "waiterIndex k ws t = None \<longleftrightarrow> t \<notin> wId ` set ws"
  by (induction ws arbitrary: k) auto

section \<open>The number of queued bytes\<close>

definition map_bytes :: "(string \<rightharpoonup> bytes list) \<Rightarrow> nat" where
  "map_bytes m = (\<Sum>c\<in>dom m. sum_list (map length (the (m c))))"

definition slot_bytes :: "(string \<rightharpoonup> bytes list) \<Rightarrow> string \<Rightarrow> nat" where
  "slot_bytes m c = sum_list (map length (case m c of None \<Rightarrow> [] | Some q \<Rightarrow> q))"

lemma map_bytes_empty [simp]: "map_bytes Map.empty = 0"
  by (simp add: map_bytes_def)

lemma map_bytes_split:
  assumes "finite (dom m)"
  shows "map_bytes m = slot_bytes m c + (\<Sum>d\<in>dom m - {c}. sum_list (map length (the (m d))))"
proof (cases "c \<in> dom m")
  case True
  then show ?thesis
    using assms by (auto simp: map_bytes_def slot_bytes_def sum.remove)
next
  case False
  then show ?thesis by (simp add: map_bytes_def slot_bytes_def domIff)
qed

lemma map_bytes_update:
  assumes "finite (dom m)"
  shows "map_bytes (m(c \<mapsto> q)) + slot_bytes m c = map_bytes m + sum_list (map length q)"
    and "map_bytes (m(c := None)) + slot_bytes m c = map_bytes m"
proof -
  let ?rest = "\<lambda>m. \<Sum>d\<in>dom m - {c}. sum_list (map length (the (m d :: bytes list option)))"
  have r1: "?rest (m(c \<mapsto> q)) = ?rest m" by (rule sum.cong) auto
  have r2: "?rest (m(c := None)) = ?rest m" by (rule sum.cong) auto
  from assms have f: "finite (dom (m(c \<mapsto> q)))" "finite (dom (m(c := None)))" by simp_all
  show "map_bytes (m(c \<mapsto> q)) + slot_bytes m c = map_bytes m + sum_list (map length q)"
    unfolding map_bytes_split [OF assms, of c] map_bytes_split [OF f(1), of c] r1
    by (simp add: slot_bytes_def)
  show "map_bytes (m(c := None)) + slot_bytes m c = map_bytes m"
    unfolding map_bytes_split [OF assms, of c] map_bytes_split [OF f(2), of c] r2
    by (simp add: slot_bytes_def)
qed

lemma slot_le_map_bytes: "finite (dom m) \<Longrightarrow> slot_bytes m c \<le> map_bytes m"
  using map_bytes_split [of m c] by simp

section \<open>The invariant\<close>

text \<open>
  The limits a broker runs with: the sum the capacity check computes cannot leave the range of
  \<open>int64\<close>.
\<close>

definition limits_ok :: "broker \<Rightarrow> bool" where
  "limits_ok b \<longleftrightarrow>
     0 \<le> maxBytes b \<and> 0 \<le> maxQueuedBytes b \<and> maxQueuedBytes b + maxBytes b < 2 ^ 63"

definition accounted :: "broker \<Rightarrow> bool" where
  "accounted b \<longleftrightarrow>
     finite (dom (queues b))
     \<and> queuedBytes b = int (map_bytes (queues b))
     \<and> queuedBytes b \<le> maxQueuedBytes b"

definition queues_ok :: "broker \<Rightarrow> bool" where
  "queues_ok b \<longleftrightarrow>
     (\<forall>c q. queues b c = Some q \<longrightarrow>
        q \<noteq> [] \<and> valid_channel c \<and> (\<forall>p \<in> set q. int (length p) \<le> maxBytes b))"

definition signals_ok :: "broker \<Rightarrow> bool" where
  "signals_ok b \<longleftrightarrow>
     drainSignal b < length (signals b)
     \<and> (\<forall>i < length (signals b). signals b ! i \<longleftrightarrow> i \<noteq> drainSignal b)"

definition waiters_ok :: "broker \<Rightarrow> bool" where
  "waiters_ok b \<longleftrightarrow>
     distinct (map wId (waiters b))
     \<and> (\<forall>w \<in> set (waiters b). \<forall>c \<in> set (wChannels w). queues b c = None)"

definition broker_inv :: "broker \<Rightarrow> bool" where
  "broker_inv b \<longleftrightarrow>
     limits_ok b \<and> accounted b \<and> queues_ok b \<and> signals_ok b \<and> waiters_ok b"

lemmas broker_inv_defs =
  broker_inv_def limits_ok_def accounted_def queues_ok_def signals_ok_def waiters_ok_def

lemma broker_inv_New:
  "0 \<le> mb \<Longrightarrow> 0 \<le> mq \<Longrightarrow> mq + mb < 2 ^ 63 \<Longrightarrow> broker_inv (SetOnBlock (NewBroker mb mq) f)"
  by (simp add: broker_inv_defs NewBroker_def SetOnBlock_def)

lemma queueOf_None: "queues_ok b \<Longrightarrow> queueOf b c = [] \<longleftrightarrow> queues b c = None"
  by (auto simp: queueOf_def queues_ok_def split: option.splits)

lemma queueOf_sizes: "queues_ok b \<Longrightarrow> p \<in> set (queueOf b c) \<Longrightarrow> int (length p) \<le> maxBytes b"
  by (cases "queues b c") (auto simp: queueOf_def queues_ok_def)

lemma slot_bytes_queueOf: "slot_bytes (queues b) c = sum_list (map length (queueOf b c))"
  by (simp add: slot_bytes_def queueOf_def)

text \<open>No wrap-around: the 64-bit operations of the broker are the integer operations.\<close>

lemma size_exact:
  "limits_ok b \<Longrightarrow> int (length p) \<le> maxBytes b \<Longrightarrow> i64 (int (length p)) = int (length p)"
  by (rule i64_bounded) (simp_all add: limits_ok_def)

lemma sum_exact:
  assumes "limits_ok b" and "accounted b" and "int (length p) \<le> maxBytes b"
  shows "i64 (queuedBytes b + i64 (int (length p))) = queuedBytes b + int (length p)"
  using assms unfolding size_exact [OF assms(1,3)]
  by (intro i64_bounded) (simp_all add: limits_ok_def accounted_def)

section \<open>Push\<close>

lemma pushLocked_Handoff:
  assumes "pushLocked b c p = (Handoff i d, b')"
  shows "d = \<lparr>dChannel = c, dPayload = p\<rparr>
    \<and> (\<exists>us w vs. waiters b = us @ w # vs \<and> wId w = i \<and> c \<in> set (wChannels w)
        \<and> (\<forall>u \<in> set us. c \<notin> set (wChannels u)) \<and> b' = b\<lparr>waiters := us @ vs\<rparr>)"
proof -
  from assms obtain k w where f: "findWaiter 0 (waiters b) c = Some (k, w)"
    and res: "i = wId w" "d = \<lparr>dChannel = c, dPayload = p\<rparr>" "b' = removeWaiterAtLocked b k"
    by (auto simp: pushLocked_def Let_def split: option.splits if_splits)
  from findWaiter_Some [OF f] obtain us vs where "waiters b = us @ w # vs" "k = length us"
    "c \<in> set (wChannels w)" "\<forall>u \<in> set us. c \<notin> set (wChannels u)" by auto
  then show ?thesis
    using res by (auto simp: removeWaiterAtLocked_def removeAt_split)
qed

lemma pushLocked_Enqueued:
  assumes "pushLocked b c p = (Enqueued, b')"
  shows "(\<forall>w \<in> set (waiters b). c \<notin> set (wChannels w))
    \<and> i64 (queuedBytes b + i64 (int (length p))) \<le> maxQueuedBytes b
    \<and> b' = b\<lparr>queues := (queues b)(c \<mapsto> queueOf b c @ [p]),
             queuedBytes := i64 (queuedBytes b + i64 (int (length p)))\<rparr>"
  using assms by (auto simp: pushLocked_def Let_def findWaiter_None split: option.splits if_splits)

lemma pushLocked_Full:
  assumes "pushLocked b c p = (Full s q m n, b')"
  shows "(\<forall>w \<in> set (waiters b). c \<notin> set (wChannels w))
    \<and> maxQueuedBytes b < i64 (queuedBytes b + i64 (int (length p)))
    \<and> b' = b \<and> s = drainSignal b \<and> q = queuedBytes b \<and> m = maxQueuedBytes b \<and> n = onBlock b"
  using assms by (auto simp: pushLocked_def Let_def findWaiter_None split: option.splits if_splits)

lemma remove_waiter_inv:
  assumes "broker_inv b" and "waiters b = us @ w # vs"
  shows "broker_inv (b\<lparr>waiters := us @ vs\<rparr>)"
  using assms by (auto simp: broker_inv_defs)

lemma enqueue_inv:
  assumes inv: "broker_inv b" and c: "valid_channel c" and p: "int (length p) \<le> maxBytes b"
    and free: "\<forall>w \<in> set (waiters b). c \<notin> set (wChannels w)"
    and fits: "queuedBytes b + int (length p) \<le> maxQueuedBytes b"
  shows "broker_inv (b\<lparr>queues := (queues b)(c \<mapsto> queueOf b c @ [p]),
                      queuedBytes := queuedBytes b + int (length p)\<rparr>)"
proof -
  have "map_bytes ((queues b)(c \<mapsto> queueOf b c @ [p])) = map_bytes (queues b) + length p"
    using map_bytes_update(1) [of "queues b" c "queueOf b c @ [p]"] inv
    by (simp add: slot_bytes_queueOf broker_inv_def accounted_def)
  moreover have "\<forall>x \<in> set (queueOf b c). int (length x) \<le> maxBytes b"
    using inv queueOf_sizes by (simp add: broker_inv_def)
  ultimately show ?thesis
    using inv c p free fits by (auto simp: broker_inv_defs)
qed

lemma pushLocked_inv [inv_intros]:
  assumes inv: "broker_inv b" and c: "valid_channel c" and p: "int (length p) \<le> maxBytes b"
    and step: "pushLocked b c p = (res, b')"
  shows "broker_inv b'"
proof (cases res)
  case (Handoff i d)
  with step pushLocked_Handoff [of b c p i d b'] inv show ?thesis
    by (auto intro: remove_waiter_inv)
next
  case Enqueued
  have "i64 (queuedBytes b + i64 (int (length p))) = queuedBytes b + int (length p)"
    using inv p by (intro sum_exact) (auto simp: broker_inv_def)
  with Enqueued step pushLocked_Enqueued [of b c p b'] enqueue_inv [OF inv c p] show ?thesis
    by auto
next
  case (Full s q m n)
  with step pushLocked_Full [of b c p s q m n b'] inv show ?thesis by simp
qed

section \<open>Pop\<close>

lemma closeChan_current: "signals_ok b \<Longrightarrow> closeChan (signals b) (drainSignal b) =
    Some ((signals b)[drainSignal b := True])"
  by (simp add: closeChan_def signals_ok_def)

text \<open>The state after taking the first message of channel \<open>c\<close>.\<close>

definition after_take :: "broker \<Rightarrow> string \<Rightarrow> bytes \<Rightarrow> bytes list \<Rightarrow> broker" where
  "after_take b c p rest =
     b\<lparr>queues := (if rest = [] then (queues b)(c := None) else (queues b)(c \<mapsto> rest)),
       queuedBytes := queuedBytes b - int (length p),
       signals := (signals b)[drainSignal b := True] @ [False],
       drainSignal := length (signals b)\<rparr>"

lemma take_inv:
  assumes inv: "broker_inv b" and q: "queueOf b c = p # rest"
  shows "broker_inv (after_take b c p rest)"
proof -
  let ?qs = "if rest = [] then (queues b)(c := None) else (queues b)(c \<mapsto> rest)"
  have fin: "finite (dom (queues b))" using inv by (simp add: broker_inv_def accounted_def)
  have bytes: "map_bytes ?qs + length p = map_bytes (queues b)"
    using map_bytes_update(1) [OF fin, of c rest] map_bytes_update(2) [OF fin, of c] q
    by (auto simp: slot_bytes_queueOf)
  have acc: "accounted (after_take b c p rest)"
    using inv bytes by (auto simp: after_take_def broker_inv_def accounted_def)
  have some: "queues b c = Some (p # rest)"
    using q by (auto simp: queueOf_def split: option.splits)
  then have qok: "queues_ok (after_take b c p rest)"
    using inv by (auto simp: after_take_def broker_inv_def queues_ok_def)
  have sok: "signals_ok (after_take b c p rest)"
    using inv by (auto simp: after_take_def broker_inv_def signals_ok_def nth_append nth_list_update)
  have wok: "waiters_ok (after_take b c p rest)"
    using inv some by (fastforce simp: after_take_def broker_inv_def waiters_ok_def)
  show ?thesis
    using inv acc qok sok wok by (simp add: broker_inv_def limits_ok_def) (simp add: after_take_def)
qed

lemma popQueuedLocked_exact:
  assumes inv: "broker_inv b"
  shows "popQueuedLocked b cs =
     (case dropWhile (\<lambda>c. queueOf b c = []) cs of
        [] \<Rightarrow> Ret (None, b)
      | c # _ \<Rightarrow>
          Ret (Some \<lparr>dChannel = c, dPayload = hd (queueOf b c)\<rparr>,
               after_take b c (hd (queueOf b c)) (tl (queueOf b c))))"
proof (induction cs)
  case Nil
  then show ?case by simp
next
  case (Cons c cs)
  show ?case
  proof (cases "queueOf b c")
    case Nil
    with Cons show ?thesis by simp
  next
    case (Cons p rest)
    have some: "queues b c = Some (p # rest)"
      using Cons by (auto simp: queueOf_def split: option.splits)
    with inv have p: "int (length p) \<le> maxBytes b" by (auto simp: broker_inv_def queues_ok_def)
    have "slot_bytes (queues b) c \<le> map_bytes (queues b)"
      using inv by (intro slot_le_map_bytes) (simp add: broker_inv_def accounted_def)
    then have "int (length p) \<le> queuedBytes b"
      using inv Cons by (simp add: slot_bytes_queueOf broker_inv_def accounted_def)
    then have "i64 (queuedBytes b - i64 (int (length p))) = queuedBytes b - int (length p)"
      using inv p size_exact [of b p]
      by (simp add: broker_inv_def limits_ok_def accounted_def i64_bounded)
    then show ?thesis
      using inv Cons by (simp add: closeChan_current broker_inv_def after_take_def Let_def)
  qed
qed

lemma popQueuedLocked_cases:
  assumes inv: "broker_inv b"
  obtains (empty) "popQueuedLocked b cs = Ret (None, b)" "\<forall>c \<in> set cs. queueOf b c = []"
  | (taken) before c after p rest where
      "popQueuedLocked b cs = Ret (Some \<lparr>dChannel = c, dPayload = p\<rparr>, after_take b c p rest)"
      "cs = before @ c # after" "\<forall>d \<in> set before. queueOf b d = []" "queueOf b c = p # rest"
proof (cases "dropWhile (\<lambda>c. queueOf b c = []) cs")
  case Nil
  then have "\<forall>c \<in> set cs. queueOf b c = []" by simp
  moreover have "popQueuedLocked b cs = Ret (None, b)"
    by (simp only: popQueuedLocked_exact [OF inv] Nil list.case)
  ultimately show thesis using that(1) by blast
next
  case (Cons c after)
  let ?before = "takeWhile (\<lambda>c. queueOf b c = []) cs"
  have cs: "cs = ?before @ c # after" by (metis Cons takeWhile_dropWhile_id)
  have ne: "queueOf b c \<noteq> []"
    using Cons hd_dropWhile [of "\<lambda>c. queueOf b c = []" cs] by simp
  have before: "\<forall>d \<in> set ?before. queueOf b d = []" by (auto dest: set_takeWhileD)
  have pop: "popQueuedLocked b cs = Ret (Some \<lparr>dChannel = c, dPayload = hd (queueOf b c)\<rparr>,
      after_take b c (hd (queueOf b c)) (tl (queueOf b c)))"
    by (simp only: popQueuedLocked_exact [OF inv] Cons list.case)
  show thesis by (rule that(2) [OF pop cs before]) (use ne in simp)
qed

lemma queueOf_after_take:
  "queueOf b c = p # rest \<Longrightarrow> queueOf (after_take b c p rest) d = (if d = c then rest else queueOf b d)"
  by (simp add: queueOf_def after_take_def)

lemma add_waiter_inv:
  assumes inv: "broker_inv b" and new: "new \<notin> wId ` set (waiters b)"
    and free: "\<forall>c \<in> set cs. queueOf b c = []"
  shows "broker_inv (b\<lparr>waiters := waiters b @ [\<lparr>wId = new, wChannels = cs\<rparr>]\<rparr>)"
  using inv new free queueOf_None [of b] by (auto simp: broker_inv_defs)

lemma removeWaiterLocked_inv [inv_intros]:
  assumes "broker_inv b" and "removeWaiterLocked b t = (ok, b')"
  shows "broker_inv b'"
proof (cases "waiterIndex 0 (waiters b) t")
  case None
  with assms show ?thesis by (simp add: removeWaiterLocked_def)
next
  case (Some i)
  from waiterIndex_Some [OF Some] obtain us w vs where "waiters b = us @ w # vs" "i = length us"
    by auto
  then show ?thesis
    using assms Some remove_waiter_inv
    by (auto simp: removeWaiterLocked_def removeWaiterAtLocked_def removeAt_split)
qed

lemma popLocked_inv [inv_intros]:
  assumes inv: "broker_inv b" and new: "new \<notin> wId ` set (waiters b)"
    and step: "popLocked b cs ctx new = Ret (res, b')"
  shows "broker_inv b'"
  using inv
proof (cases rule: popQueuedLocked_cases [where cs = cs])
  case empty
  then show ?thesis
    using step inv add_waiter_inv [OF inv new empty(2)]
    by (auto simp: popLocked_def split: option.splits)
next
  case (taken before c after p rest)
  then show ?thesis
    using step take_inv [OF inv] by (auto simp: popLocked_def)
qed

lemma popLocked_no_panic: "broker_inv b \<Longrightarrow> popLocked b cs ctx new \<noteq> Panics"
  by (cases rule: popQueuedLocked_cases [where b = b and cs = cs])
     (auto simp: popLocked_def split: option.splits)

end
