(* ===== verification/MessageStore.thy ===== *)
theory MessageStore
  imports Prelude
begin

text \<open>
  The contract of a store of messages under keys, first in, first out per key, in which a consumer
  names several keys and gets the oldest message of the first key that has one. A run of operations
  logs what was stored and what was handed out; the client theorems compare the two logs.
\<close>

section \<open>Runs of operations\<close>

datatype ('k, 'm) store_op = Put 'k 'm | Get "'k list"

type_synonym ('k, 'm) store_log = "('k \<times> 'm) list"

text \<open>
  \<open>put\<close> answers \<open>None\<close> when the message is not stored (and the state then stays as it is); \<open>get\<close>
  answers the key and the message it took, if any.
\<close>

fun run_store ::
    "('s \<Rightarrow> 'k \<Rightarrow> 'm \<Rightarrow> 's option) \<Rightarrow> ('s \<Rightarrow> 'k list \<Rightarrow> ('k \<times> 'm) option \<times> 's) \<Rightarrow> 's
     \<Rightarrow> ('k, 'm) store_op list \<Rightarrow> ('k, 'm) store_log \<times> ('k, 'm) store_log \<times> 's" where
  "run_store put get s [] = ([], [], s)"
| "run_store put get s (Put k m # ops) =
     (case put s k m of
        None \<Rightarrow> run_store put get s ops
      | Some s' \<Rightarrow>
          let (ins, outs, s'') = run_store put get s' ops in ((k, m) # ins, outs, s''))"
| "run_store put get s (Get ks # ops) =
     (case get s ks of
        (None, s') \<Rightarrow> run_store put get s' ops
      | (Some km, s') \<Rightarrow>
          let (ins, outs, s'') = run_store put get s' ops in (ins, km # outs, s''))"

text \<open>The part of a log that concerns one key, in order.\<close>

definition on_key :: "'k \<Rightarrow> ('k \<times> 'm) list \<Rightarrow> 'm list" where
  "on_key k xs = map snd (filter (\<lambda>km. fst km = k) xs)"

lemma on_key_simps [simp]:
  "on_key k [] = []"
  "on_key k ((j, m) # xs) = (if j = k then m # on_key k xs else on_key k xs)"
  "on_key k (xs @ ys) = on_key k xs @ on_key k ys"
  by (simp_all add: on_key_def)

section \<open>The contract\<close>

locale message_store =
  fixes contents :: "'s \<Rightarrow> 'k \<Rightarrow> 'm list"
    and good :: "'s \<Rightarrow> bool"
    and put :: "'s \<Rightarrow> 'k \<Rightarrow> 'm \<Rightarrow> 's option"
    and get :: "'s \<Rightarrow> 'k list \<Rightarrow> ('k \<times> 'm) option \<times> 's"
  assumes put_good: "good s \<Longrightarrow> put s k m = Some s' \<Longrightarrow> good s'"
    and put_contents: "good s \<Longrightarrow> put s k m = Some s' \<Longrightarrow>
      contents s' j = (if j = k then contents s k @ [m] else contents s j)"
    and get_good: "good s \<Longrightarrow> get s ks = (res, s') \<Longrightarrow> good s'"
    and get_None: "good s \<Longrightarrow> get s ks = (None, s') \<Longrightarrow> s' = s \<and> (\<forall>k \<in> set ks. contents s k = [])"
    and get_Some: "good s \<Longrightarrow> get s ks = (Some (k, m), s') \<Longrightarrow>
      (\<exists>before after. ks = before @ k # after \<and> (\<forall>j \<in> set before. contents s j = []))
      \<and> contents s k = m # contents s' k
      \<and> (\<forall>j. j \<noteq> k \<longrightarrow> contents s' j = contents s j)"
begin

text \<open>
  First in, first out, nothing lost, nothing invented: on every key, what was there and what was
  stored is what was handed out followed by what is still there.
\<close>

lemma fifo:
  "good s \<Longrightarrow> run_store put get s ops = (ins, outs, s') \<Longrightarrow>
   good s' \<and> contents s k @ on_key k ins = on_key k outs @ contents s' k"
proof (induction ops arbitrary: s ins outs)
  case Nil
  then show ?case by simp
next
  case (Cons op ops)
  show ?case
  proof (cases op)
    case (Put j m)
    show ?thesis
    proof (cases "put s j m")
      case None
      with Cons Put show ?thesis by simp
    next
      case (Some s1)
      with Cons.prems Put obtain ins1 where r: "run_store put get s1 ops = (ins1, outs, s')"
        and ins: "ins = (j, m) # ins1"
        by (auto split: prod.splits)
      from Cons.IH [OF put_good [OF Cons.prems(1) Some] r] show ?thesis
        using put_contents [OF Cons.prems(1) Some, of k] ins by (auto split: if_splits)
    qed
  next
    case (Get ks)
    obtain res s1 where g: "get s ks = (res, s1)" by (cases "get s ks")
    have good1: "good s1" using Cons.prems(1) g by (rule get_good)
    show ?thesis
    proof (cases res)
      case None
      with g get_None [OF Cons.prems(1)] have "s1 = s" by blast
      then show ?thesis using Cons Get g None by simp
    next
      case (Some jm)
      obtain j m where jm: "jm = (j, m)" by (cases jm)
      with Cons.prems Get g Some obtain outs1 where r: "run_store put get s1 ops = (ins, outs1, s')"
        and outs: "outs = (j, m) # outs1"
        by (auto split: prod.splits)
      from get_Some [OF Cons.prems(1)] g Some jm
      have "contents s j = m # contents s1 j" "j \<noteq> k \<longrightarrow> contents s1 k = contents s k" by auto
      with Cons.IH [OF good1 r] outs show ?thesis by auto
    qed
  qed
qed

lemma outputs_were_inputs:
  assumes "good s" and "contents s k = []" and "run_store put get s ops = (ins, outs, s')"
  shows "\<exists>rest. on_key k ins = on_key k outs @ rest"
  using fifo [OF assms(1,3), of k] assms(2) by auto

end

end
