(* ===== verification/BrokerStore.thy ===== *)
theory BrokerStore
  imports BrokerInv MessageStore
begin

text \<open>
  The broker's queues as an instance of the message-store contract: \<open>brokerPut\<close> is a \<open>Push\<close> that
  stores its message (the checks, then the critical section), \<open>brokerGet\<close> a \<open>Pop\<close> served from the
  queues.
\<close>

definition brokerPut :: "broker \<Rightarrow> string \<Rightarrow> bytes \<Rightarrow> broker option" where
  "brokerPut b channel payload =
     (case pushCheck b channel payload of
        Some err \<Rightarrow> None
      | None \<Rightarrow>
          (case pushLocked b channel payload of
             (Enqueued, b') \<Rightarrow> Some b'
           | _ \<Rightarrow> None))"

definition brokerGet :: "broker \<Rightarrow> string list \<Rightarrow> (string \<times> bytes) option \<times> broker" where
  "brokerGet b channels =
     (case popQueuedLocked b channels of
        Panics \<Rightarrow> (None, b)
      | Ret (None, b') \<Rightarrow> (None, b')
      | Ret (Some msg, b') \<Rightarrow> (Some (dChannel msg, dPayload msg), b'))"

lemma pushCheck_None: "pushCheck b c p = None \<longleftrightarrow> valid_channel c \<and> int (length p) \<le> maxBytes b"
  by (auto simp: pushCheck_def split: option.splits)
     (metis option.distinct(1) validateChannel_None)

lemma brokerPut_Some:
  "brokerPut b c p = Some b' \<Longrightarrow>
     valid_channel c \<and> int (length p) \<le> maxBytes b \<and> pushLocked b c p = (Enqueued, b')"
  using pushCheck_None [of b c p]
  by (auto simp: brokerPut_def split: option.splits prod.splits push_outcome.splits)

lemma queueOf_enqueued:
  "pushLocked b c p = (Enqueued, b') \<Longrightarrow>
     queueOf b' d = (if d = c then queueOf b c @ [p] else queueOf b d)"
  using pushLocked_Enqueued [of b c p b'] by (simp add: queueOf_def)

interpretation store: message_store queueOf broker_inv brokerPut brokerGet
proof
  fix b b' :: broker and c d :: string and p :: bytes
  assume inv: "broker_inv b" and put: "brokerPut b c p = Some b'"
  note p = brokerPut_Some [OF put]
  show "broker_inv b'" using inv p by (blast intro: pushLocked_inv)
  show "queueOf b' d = (if d = c then queueOf b c @ [p] else queueOf b d)"
    using p by (simp add: queueOf_enqueued)
next
  fix b b' :: broker and cs res
  assume inv: "broker_inv b" and get: "brokerGet b cs = (res, b')"
  from inv show "broker_inv b'"
    by (cases rule: popQueuedLocked_cases [where cs = cs])
       (use inv get take_inv in \<open>auto simp: brokerGet_def\<close>)
next
  fix b b' :: broker and cs
  assume inv: "broker_inv b" and get: "brokerGet b cs = (None, b')"
  from inv show "b' = b \<and> (\<forall>c \<in> set cs. queueOf b c = [])"
    by (cases rule: popQueuedLocked_cases [where cs = cs]) (use get in \<open>auto simp: brokerGet_def\<close>)
next
  fix b b' :: broker and cs c p
  assume inv: "broker_inv b" and get: "brokerGet b cs = (Some (c, p), b')"
  from inv show "(\<exists>before after. cs = before @ c # after \<and> (\<forall>d \<in> set before. queueOf b d = []))
      \<and> queueOf b c = p # queueOf b' c \<and> (\<forall>d. d \<noteq> c \<longrightarrow> queueOf b' d = queueOf b d)"
    by (cases rule: popQueuedLocked_cases [where cs = cs])
       (use get in \<open>auto simp: brokerGet_def queueOf_after_take\<close>)
qed

end
