(* ===== verification/BrokerSys.thy ===== *)
theory BrokerSys
  imports BrokerStore
begin

text \<open>
  The broker under concurrent calls (\<open>broker.go\<close>): any number of goroutines, each inside at most one
  call of \<open>Push\<close> or \<open>Pop\<close>, interleaved between any two of the segments the code divides into at
  \<open>b.mu.Lock()\<close>/\<open>Unlock()\<close> and at every channel operation. A step relation has one rule per segment
  and per arm of each \<open>select\<close>; its label says which message was stored, handed over or returned.
\<close>

section \<open>Goroutines\<close>

text \<open>
  Where a goroutine is. \<open>PushLock\<close>: at \<open>b.mu.Lock()\<close> in \<open>push\<close>. \<open>PushReply\<close>: unlocked, about to
  send to the reply channel of a waiter it removed. \<open>PushNotify\<close>: about to call \<open>onBlock\<close>.
  \<open>PushWait\<close>: in the \<open>select\<close> on the drain signal and the context. \<open>PopLock\<close>: at \<open>b.mu.Lock()\<close> in
  \<open>Pop\<close>. \<open>PopWait\<close>: in the \<open>select\<close> on the reply channel and the context. \<open>PopCancel\<close>: the context is
  done, about to remove the waiter. \<open>PopTake\<close>: the waiter was already removed by a push, blocked on
  \<open><-w.reply\<close>. \<open>PopPoll\<close>: at the last \<open>select\<close>, the one with a \<open>default\<close>.
\<close>

datatype control =
    Idle
  | PushLock string bytes
  | PushReply nat delivery
  | PushNotify string bytes nat int int
  | PushWait string bytes nat
  | PushRet "goerr option"
  | PopLock "string list"
  | PopWait nat "string list"
  | PopCancel nat "string list"
  | PopTake nat "string list"
  | PopPoll nat "string list"
  | PopRet "goerr + delivery"

record thread =
  at :: control
  ctx :: "goerr option"

record sys =
  brk :: broker
  threads :: "thread list"
  replies :: "delivery list list"
  crashed :: bool

definition sys_start :: "int \<Rightarrow> int \<Rightarrow> bool \<Rightarrow> sys" where
  "sys_start maxB maxQ fn =
     \<lparr>brk = SetOnBlock (NewBroker maxB maxQ) fn, threads = [], replies = [], crashed = False\<rparr>"

text \<open>
  The start states: a new broker whose limits leave the capacity check inside \<open>int64\<close> (which the
  limits \<open>serve\<close> passes do).
\<close>

definition sys_init :: "sys \<Rightarrow> bool" where
  "sys_init s \<longleftrightarrow>
     (\<exists>maxB maxQ fn. 0 \<le> maxB \<and> 0 \<le> maxQ \<and> maxQ + maxB < 2 ^ 63 \<and> s = sys_start maxB maxQ fn)"

definition runs :: "sys \<Rightarrow> nat \<Rightarrow> control \<Rightarrow> bool" where
  "runs s t c \<longleftrightarrow> \<not> crashed s \<and> t < length (threads s) \<and> at (threads s ! t) = c"

definition goto :: "sys \<Rightarrow> nat \<Rightarrow> control \<Rightarrow> sys" where
  "goto s t c = s\<lparr>threads := (threads s)[t := (threads s ! t)\<lparr>at := c\<rparr>]\<rparr>"

definition ctx_of :: "sys \<Rightarrow> nat \<Rightarrow> goerr option" where
  "ctx_of s t = ctx (threads s ! t)"

section \<open>Entering a call\<close>

definition pushEnter :: "broker \<Rightarrow> string \<Rightarrow> bytes \<Rightarrow> control" where
  "pushEnter b channel payload =
     (case pushCheck b channel payload of
        Some err \<Rightarrow> PushRet (Some err)
      | None \<Rightarrow> PushLock channel payload)"

definition popEnter :: "string list \<Rightarrow> control" where
  "popEnter channels =
     (case popCheck channels of Some err \<Rightarrow> PopRet (Inl err) | None \<Rightarrow> PopLock channels)"

section \<open>Steps\<close>

datatype event =
    Tau
  | Stored delivery
  | HandedOver delivery
  | Served nat "string list" delivery
  | Received nat "string list" delivery
  | Blocked string int int

inductive step :: "sys \<Rightarrow> event \<Rightarrow> sys \<Rightarrow> bool" where
  spawn: "\<not> crashed s \<Longrightarrow>
    step s Tau (s\<lparr>threads := threads s @ [\<lparr>at = Idle, ctx = None\<rparr>]\<rparr>)"
| ctx_done: "runs s t c \<Longrightarrow> ctx_of s t = None \<Longrightarrow> err = Canceled \<or> err = DeadlineExceeded \<Longrightarrow>
    step s Tau (s\<lparr>threads := (threads s)[t := (threads s ! t)\<lparr>ctx := Some err\<rparr>]\<rparr>)"
| call_push: "runs s t Idle \<Longrightarrow>
    step s Tau (s\<lparr>threads := (threads s)[t := \<lparr>at = pushEnter (brk s) channel payload, ctx = cx\<rparr>]\<rparr>)"
| call_pop: "runs s t Idle \<Longrightarrow>
    step s Tau (s\<lparr>threads := (threads s)[t := \<lparr>at = popEnter channels, ctx = cx\<rparr>]\<rparr>)"
| push_handoff: "runs s t (PushLock channel payload) \<Longrightarrow>
    pushLocked (brk s) channel payload = (Handoff w d, b') \<Longrightarrow>
    step s (HandedOver d) (goto (s\<lparr>brk := b'\<rparr>) t (PushReply w d))"
| push_enqueue: "runs s t (PushLock channel payload) \<Longrightarrow>
    pushLocked (brk s) channel payload = (Enqueued, b') \<Longrightarrow>
    step s (Stored \<lparr>dChannel = channel, dPayload = payload\<rparr>)
      (goto (s\<lparr>brk := b'\<rparr>) t (PushRet None))"
| push_full: "runs s t (PushLock channel payload) \<Longrightarrow>
    pushLocked (brk s) channel payload = (Full sig queued m notify, b') \<Longrightarrow>
    step s Tau (goto (s\<lparr>brk := b'\<rparr>) t
      (if notify then PushNotify channel payload sig queued m else PushWait channel payload sig))"
| push_send: "runs s t (PushReply w d) \<Longrightarrow> w < length (replies s) \<Longrightarrow> replies s ! w = [] \<Longrightarrow>
    step s Tau (goto (s\<lparr>replies := (replies s)[w := [d]]\<rparr>) t (PushRet None))"
| push_notify: "runs s t (PushNotify channel payload sig queued m) \<Longrightarrow>
    step s (Blocked channel queued m) (goto s t (PushWait channel payload sig))"
| push_drained: "runs s t (PushWait channel payload sig) \<Longrightarrow>
    sig < length (signals (brk s)) \<Longrightarrow> signals (brk s) ! sig \<Longrightarrow>
    step s Tau (goto s t (PushLock channel payload))"
| push_ctx: "runs s t (PushWait channel payload sig) \<Longrightarrow> ctx_of s t = Some err \<Longrightarrow>
    step s Tau (goto s t (PushRet (Some (timeoutFromContext err))))"
| push_return: "runs s t (PushRet res) \<Longrightarrow> step s Tau (goto s t Idle)"
| pop_queued: "runs s t (PopLock channels) \<Longrightarrow>
    popLocked (brk s) channels (ctx_of s t) (length (replies s)) = Ret (PopGot d, b') \<Longrightarrow>
    step s (Served t channels d) (goto (s\<lparr>brk := b'\<rparr>) t (PopRet (Inr d)))"
| pop_expired: "runs s t (PopLock channels) \<Longrightarrow>
    popLocked (brk s) channels (ctx_of s t) (length (replies s)) = Ret (PopFailed err, b') \<Longrightarrow>
    step s Tau (goto (s\<lparr>brk := b'\<rparr>) t (PopRet (Inl err)))"
| pop_park: "runs s t (PopLock channels) \<Longrightarrow>
    popLocked (brk s) channels (ctx_of s t) (length (replies s)) = Ret (PopParked w, b') \<Longrightarrow>
    step s Tau (goto (s\<lparr>brk := b', replies := replies s @ [[]]\<rparr>) t (PopWait w channels))"
| pop_panic: "runs s t (PopLock channels) \<Longrightarrow>
    popLocked (brk s) channels (ctx_of s t) (length (replies s)) = Panics \<Longrightarrow>
    step s Tau (s\<lparr>crashed := True\<rparr>)"
| pop_receive: "runs s t (PopWait w channels) \<Longrightarrow> w < length (replies s) \<Longrightarrow>
    replies s ! w = d # ds \<Longrightarrow>
    step s (Received t channels d) (goto (s\<lparr>replies := (replies s)[w := ds]\<rparr>) t (PopRet (Inr d)))"
| pop_done: "runs s t (PopWait w channels) \<Longrightarrow> ctx_of s t \<noteq> None \<Longrightarrow>
    step s Tau (goto s t (PopCancel w channels))"
| pop_removed: "runs s t (PopCancel w channels) \<Longrightarrow> removeWaiterLocked (brk s) w = (True, b') \<Longrightarrow>
    step s Tau (goto (s\<lparr>brk := b'\<rparr>) t (PopPoll w channels))"
| pop_claimed: "runs s t (PopCancel w channels) \<Longrightarrow> removeWaiterLocked (brk s) w = (False, b') \<Longrightarrow>
    step s Tau (goto (s\<lparr>brk := b'\<rparr>) t (PopTake w channels))"
| pop_take: "runs s t (PopTake w channels) \<Longrightarrow> w < length (replies s) \<Longrightarrow>
    replies s ! w = d # ds \<Longrightarrow>
    step s (Received t channels d) (goto (s\<lparr>replies := (replies s)[w := ds]\<rparr>) t (PopRet (Inr d)))"
| pop_poll_message: "runs s t (PopPoll w channels) \<Longrightarrow> w < length (replies s) \<Longrightarrow>
    replies s ! w = d # ds \<Longrightarrow>
    step s (Received t channels d) (goto (s\<lparr>replies := (replies s)[w := ds]\<rparr>) t (PopRet (Inr d)))"
| pop_poll_default: "runs s t (PopPoll w channels) \<Longrightarrow> w < length (replies s) \<Longrightarrow>
    replies s ! w = [] \<Longrightarrow> ctx_of s t = Some err \<Longrightarrow>
    step s Tau (goto s t (PopRet (Inl (timeoutFromContext err))))"
| pop_return: "runs s t (PopRet res) \<Longrightarrow> step s Tau (goto s t Idle)"

section \<open>What a history says\<close>

fun stored_of :: "event \<Rightarrow> (string \<times> bytes) list" where
  "stored_of (Stored d) = [(dChannel d, dPayload d)]"
| "stored_of (HandedOver d) = [(dChannel d, dPayload d)]"
| "stored_of _ = []"

fun taken_of :: "event \<Rightarrow> (string \<times> bytes) list" where
  "taken_of (HandedOver d) = [(dChannel d, dPayload d)]"
| "taken_of (Served _ _ d) = [(dChannel d, dPayload d)]"
| "taken_of _ = []"

fun returned_of :: "event \<Rightarrow> (string \<times> bytes) list" where
  "returned_of (Served _ _ d) = [(dChannel d, dPayload d)]"
| "returned_of (Received _ _ d) = [(dChannel d, dPayload d)]"
| "returned_of _ = []"

text \<open>
  The messages pushes were accepted for, in the order of their critical sections; the messages
  taken out of the broker, in the order of the critical sections that took them; the messages the
  calls of \<open>Pop\<close> returned.
\<close>

definition accepted :: "event list \<Rightarrow> (string \<times> bytes) list" where
  "accepted es = concat (map stored_of es)"

definition taken :: "event list \<Rightarrow> (string \<times> bytes) list" where
  "taken es = concat (map taken_of es)"

definition returned :: "event list \<Rightarrow> (string \<times> bytes) list" where
  "returned es = concat (map returned_of es)"

text \<open>The messages between a push that handed them over and the pop that will return them.\<close>

fun sending :: "control \<Rightarrow> (string \<times> bytes) list" where
  "sending (PushReply w d) = [(dChannel d, dPayload d)]"
| "sending _ = []"

definition in_flight :: "sys \<Rightarrow> (string \<times> bytes) list" where
  "in_flight s =
     concat (map (sending \<circ> at) (threads s))
     @ map (\<lambda>d. (dChannel d, dPayload d)) (concat (replies s))"

end
