(* ===== verification/BrokerSafety.thy ===== *)
theory BrokerSafety
  imports BrokerSys
begin

text \<open>
  The invariant of the concurrent broker. Its core is a count: for every waiter ever made, the
  number of tokens (registered in the broker, carried by a push that removed it, or lying in the
  reply channel) equals the number of pops that still own the waiter, and is at most one.
\<close>

section \<open>Control points of all goroutines\<close>

definition ats :: "sys \<Rightarrow> control list" where
  "ats s = map at (threads s)"

definition sums :: "(control \<Rightarrow> 'b::comm_monoid_add) \<Rightarrow> sys \<Rightarrow> 'b" where
  "sums f s = sum_list (map f (ats s))"

lemma ats_update [simp]:
  "ats (s\<lparr>brk := b\<rparr>) = ats s" "ats (s\<lparr>replies := r\<rparr>) = ats s" "ats (s\<lparr>crashed := x\<rparr>) = ats s"
  by (simp_all add: ats_def)

lemma ats_goto: "ats (goto s t c) = (ats s)[t := c]"
  by (simp add: ats_def goto_def map_update)

lemma ats_same_at:
  "runs s t c \<Longrightarrow> at th = c \<Longrightarrow> ats (s\<lparr>threads := (threads s)[t := th]\<rparr>) = ats s"
  by (simp add: ats_def runs_def map_update) (metis list_update_id nth_map)

lemma ats_call: "ats (s\<lparr>threads := (threads s)[t := th]\<rparr>) = (ats s)[t := at th]"
  by (simp add: ats_def map_update)

lemma runs_ats: "runs s t c \<Longrightarrow> t < length (ats s) \<and> ats s ! t = c"
  by (simp add: runs_def ats_def)

lemma runs_in_ats: "runs s t c \<Longrightarrow> c \<in> set (ats s)"
  by (metis nth_mem runs_ats)

lemma in_ats_runs: "c \<in> set (ats s) \<Longrightarrow> \<not> crashed s \<Longrightarrow> \<exists>t. runs s t c"
  by (auto simp: runs_def ats_def in_set_conv_nth)

lemma goto_simps [simp]:
  "brk (goto s t c) = brk s" "replies (goto s t c) = replies s" "crashed (goto s t c) = crashed s"
  by (simp_all add: goto_def)

lemma sums_update:
  assumes "t < length (ats s)" and "ats s ! t = c0" and "ats s' = (ats s)[t := c]"
  shows "sums f s' + f c0 = sums f s + f c"
  using sum_list_map_update [of t "ats s" f c] assms by (simp add: sums_def)

lemma sums_ge: "c \<in> set (ats s) \<Longrightarrow> f c \<le> (sums f s :: nat)"
  by (simp add: sums_def sum_list_ge_elem)

section \<open>Limits and capacity\<close>

text \<open>
  How a critical section may change what a blocked push has seen: the limits stay, and either the
  current drain signal is the same and nothing was taken out, or it is a new one.
\<close>

definition later :: "broker \<Rightarrow> broker \<Rightarrow> bool" where
  "later b b' \<longleftrightarrow>
     maxBytes b' = maxBytes b \<and> maxQueuedBytes b' = maxQueuedBytes b
     \<and> length (signals b) \<le> length (signals b')
     \<and> (drainSignal b' = drainSignal b \<and> queuedBytes b \<le> queuedBytes b'
        \<or> length (signals b) \<le> drainSignal b')"

text \<open>A push that captured signal \<open>sig\<close> while it is still the current one does not fit.\<close>

definition must_wait :: "broker \<Rightarrow> bytes \<Rightarrow> nat \<Rightarrow> bool" where
  "must_wait b p sig \<longleftrightarrow>
     sig < length (signals b)
     \<and> (sig = drainSignal b \<longrightarrow> maxQueuedBytes b < queuedBytes b + int (length p))"

fun control_ok :: "broker \<Rightarrow> control \<Rightarrow> bool" where
  "control_ok b (PushLock c p) = (valid_channel c \<and> int (length p) \<le> maxBytes b)"
| "control_ok b (PushNotify c p sig q m) =
     (valid_channel c \<and> int (length p) \<le> maxBytes b \<and> must_wait b p sig)"
| "control_ok b (PushWait c p sig) =
     (valid_channel c \<and> int (length p) \<le> maxBytes b \<and> must_wait b p sig)"
| "control_ok b _ = True"

lemma control_ok_later: "control_ok b c \<Longrightarrow> later b b' \<Longrightarrow> control_ok b' c"
  by (cases c) (auto simp: later_def must_wait_def)

lemma later_refl [simp]: "later b b"
  by (simp add: later_def)

lemma later_push:
  assumes "broker_inv b" and "int (length p) \<le> maxBytes b" and "pushLocked b c p = (res, b')"
  shows "later b b'"
proof (cases res)
  case (Handoff i d)
  with assms pushLocked_Handoff [of b c p i d b'] show ?thesis by (auto simp: later_def)
next
  case Enqueued
  have "i64 (queuedBytes b + i64 (int (length p))) = queuedBytes b + int (length p)"
    using assms by (intro sum_exact) (auto simp: broker_inv_def)
  with Enqueued assms pushLocked_Enqueued [of b c p b'] show ?thesis by (auto simp: later_def)
next
  case (Full s q m n)
  with assms pushLocked_Full [of b c p s q m n b'] show ?thesis by simp
qed

lemma later_pop:
  assumes inv: "broker_inv b" and step: "popLocked b cs cx new = Ret (res, b')"
  shows "later b b'"
  using inv
  by (cases rule: popQueuedLocked_cases [where cs = cs])
     (use step in \<open>auto simp: popLocked_def later_def after_take_def split: option.splits\<close>)

lemma later_remove:
  assumes "removeWaiterLocked b w = (ok, b')"
  shows "later b b'"
  using assms by (auto simp: removeWaiterLocked_def removeWaiterAtLocked_def later_def
      split: option.splits)

section \<open>Tokens and owners\<close>

definition reg :: "broker \<Rightarrow> nat \<Rightarrow> nat" where
  "reg b i = (if i \<in> wId ` set (waiters b) then 1 else 0)"

fun sends :: "nat \<Rightarrow> control \<Rightarrow> nat" where
  "sends i (PushReply w d) = (if w = i then 1 else 0)"
| "sends i _ = 0"

fun owns :: "nat \<Rightarrow> control \<Rightarrow> nat" where
  "owns i (PopWait w cs) = (if w = i then 1 else 0)"
| "owns i (PopCancel w cs) = (if w = i then 1 else 0)"
| "owns i (PopTake w cs) = (if w = i then 1 else 0)"
| "owns i _ = 0"

definition buf :: "sys \<Rightarrow> nat \<Rightarrow> nat" where
  "buf s i = (if i < length (replies s) then length (replies s ! i) else 0)"

definition token_inv :: "sys \<Rightarrow> bool" where
  "token_inv s \<longleftrightarrow>
     (\<forall>i. reg (brk s) i + sums (sends i) s + buf s i = sums (owns i) s \<and> sums (owns i) s \<le> 1)
     \<and> (\<forall>i \<ge> length (replies s). sums (owns i) s = 0)"

definition unregistered_inv :: "sys \<Rightarrow> bool" where
  "unregistered_inv s \<longleftrightarrow> (\<forall>w cs. PopTake w cs \<in> set (ats s) \<longrightarrow> reg (brk s) w = 0)"

definition poll_inv :: "sys \<Rightarrow> bool" where
  "poll_inv s \<longleftrightarrow>
     (\<forall>w cs. PopPoll w cs \<in> set (ats s) \<longrightarrow> w < length (replies s) \<and> sums (owns w) s = 0)"

text \<open>A waiter's channels are those of the pop that owns it, and so is what is sent to it.\<close>

definition matches :: "sys \<Rightarrow> nat \<Rightarrow> string list \<Rightarrow> bool" where
  "matches s w cs \<longleftrightarrow>
     (\<forall>x \<in> set (waiters (brk s)). wId x = w \<longrightarrow> wChannels x = cs)
     \<and> (\<forall>d. PushReply w d \<in> set (ats s) \<longrightarrow> dChannel d \<in> set cs)
     \<and> (w < length (replies s) \<longrightarrow> (\<forall>d \<in> set (replies s ! w). dChannel d \<in> set cs))"

definition match_inv :: "sys \<Rightarrow> bool" where
  "match_inv s \<longleftrightarrow>
     (\<forall>w cs. PopWait w cs \<in> set (ats s) \<or> PopCancel w cs \<in> set (ats s)
        \<or> PopTake w cs \<in> set (ats s) \<longrightarrow> matches s w cs)"

fun needs_ctx :: "control \<Rightarrow> bool" where
  "needs_ctx (PopCancel w cs) = True"
| "needs_ctx (PopTake w cs) = True"
| "needs_ctx (PopPoll w cs) = True"
| "needs_ctx _ = False"

definition ctx_inv :: "sys \<Rightarrow> bool" where
  "ctx_inv s \<longleftrightarrow> (\<forall>th \<in> set (threads s). needs_ctx (at th) \<longrightarrow> ctx th \<noteq> None)"

definition sys_inv :: "sys \<Rightarrow> bool" where
  "sys_inv s \<longleftrightarrow>
     \<not> crashed s \<and> broker_inv (brk s) \<and> (\<forall>c \<in> set (ats s). control_ok (brk s) c)
     \<and> token_inv s \<and> unregistered_inv s \<and> poll_inv s \<and> match_inv s \<and> ctx_inv s"

lemma sys_inv_init: "sys_init s \<Longrightarrow> sys_inv s"
proof -
  assume "sys_init s"
  then obtain mb mq f where lim: "0 \<le> mb" "0 \<le> mq" "mq + mb < 2 ^ 63" and s: "s = sys_start mb mq f"
    by (auto simp: sys_init_def)
  have "waiters (SetOnBlock (NewBroker mb mq) f) = []" by (simp add: SetOnBlock_def NewBroker_def)
  then show "sys_inv s"
    unfolding s using broker_inv_New [OF lim, of f]
    by (simp add: sys_start_def sys_inv_def ats_def token_inv_def sums_def buf_def reg_def
        unregistered_inv_def poll_inv_def match_inv_def ctx_inv_def)
qed

subsection \<open>Entering a call\<close>

lemma pushEnter_ok: "control_ok b (pushEnter b c p)"
  using pushCheck_None [of b c p] by (auto simp: pushEnter_def split: option.splits)

lemma pushEnter_plain:
  "sends i (pushEnter b c p) = 0" "owns i (pushEnter b c p) = 0"
  "\<not> needs_ctx (pushEnter b c p)"
  by (auto simp: pushEnter_def split: option.splits)

lemma popEnter_plain:
  "control_ok b (popEnter cs)" "sends i (popEnter cs) = 0" "owns i (popEnter cs) = 0"
  "\<not> needs_ctx (popEnter cs)"
  by (auto simp: popEnter_def split: option.splits)

subsection \<open>Changes of the register\<close>

lemma reg_split:
  assumes "broker_inv b" and "waiters b = us @ w # vs"
  shows "reg (b\<lparr>waiters := us @ vs\<rparr>) i + (if wId w = i then 1 else 0) = reg b i"
proof -
  have "wId w \<notin> wId ` set us" "wId w \<notin> wId ` set vs"
    using assms by (auto simp: broker_inv_def waiters_ok_def)
  with assms(2) show ?thesis by (cases "wId w = i") (simp_all add: reg_def image_Un)
qed

lemma reg_handoff:
  assumes "broker_inv b" and "pushLocked b c p = (Handoff w d, b')"
  shows "reg b' i + (if w = i then 1 else 0) = reg b i"
proof -
  from pushLocked_Handoff [OF assms(2)] obtain us x vs where "waiters b = us @ x # vs" "wId x = w"
    "b' = b\<lparr>waiters := us @ vs\<rparr>" by blast
  with reg_split [OF assms(1), of us x vs i] show ?thesis by simp
qed

lemma reg_enqueue: "pushLocked b c p = (Enqueued, b') \<Longrightarrow> reg b' i = reg b i"
  using pushLocked_Enqueued [of b c p b'] by (simp add: reg_def)

lemma removeWaiterLocked_True:
  assumes "removeWaiterLocked b w = (True, b')"
  obtains us x vs where "waiters b = us @ x # vs" "wId x = w" "b' = b\<lparr>waiters := us @ vs\<rparr>"
proof -
  from assms obtain k where k: "waiterIndex 0 (waiters b) w = Some k"
    and b': "b' = removeWaiterAtLocked b k"
    by (auto simp: removeWaiterLocked_def split: option.splits)
  from waiterIndex_Some [OF k] obtain us x vs where "waiters b = us @ x # vs" "k = length us" "wId x = w"
    by auto
  with that b' show thesis by (simp add: removeWaiterAtLocked_def removeAt_split)
qed

lemma reg_remove:
  assumes "broker_inv b" and "removeWaiterLocked b w = (True, b')"
  shows "reg b' i + (if w = i then 1 else 0) = reg b i"
proof -
  from removeWaiterLocked_True [OF assms(2)] obtain us x vs where "waiters b = us @ x # vs" "wId x = w"
    "b' = b\<lparr>waiters := us @ vs\<rparr>" .
  with reg_split [OF assms(1), of us x vs i] show ?thesis by simp
qed

lemma removeWaiterLocked_False: "removeWaiterLocked b w = (False, b') \<longleftrightarrow> b' = b \<and> reg b w = 0"
  by (auto simp: removeWaiterLocked_def reg_def waiterIndex_None split: option.splits)
     (metis waiterIndex_None option.distinct(1))

lemma popLocked_waiters:
  assumes inv: "broker_inv b" and step: "popLocked b cs cx new = Ret (res, b')"
  shows "waiters b' =
    (case res of PopParked w \<Rightarrow> waiters b @ [\<lparr>wId = new, wChannels = cs\<rparr>] | _ \<Rightarrow> waiters b)
    \<and> (\<forall>w. res = PopParked w \<longrightarrow> w = new)"
  using inv
  by (cases rule: popQueuedLocked_cases [where cs = cs])
     (use step in \<open>auto simp: popLocked_def after_take_def split: option.splits\<close>)

section \<open>Preservation: tokens\<close>

lemma buf_update [simp]:
  "buf (s\<lparr>brk := b\<rparr>) i = buf s i"
  "buf (s\<lparr>threads := ts\<rparr>) i = buf s i"
  "buf (goto s t c) i = buf s i"
  "buf (s\<lparr>replies := (replies s)[w := x]\<rparr>) i =
     (if i = w \<and> w < length (replies s) then length x else buf s i)"
  "buf (s\<lparr>brk := b, replies := replies s @ [[]]\<rparr>) i = buf s i"
  by (auto simp: buf_def goto_def nth_append less_Suc_eq)

lemma buf_Cons: "w < length (replies s) \<Longrightarrow> replies s ! w = d # ds \<Longrightarrow> buf s w = Suc (length ds)"
  by (simp add: buf_def)

lemma token_move:
  assumes inv: "token_inv s" and run: "runs s t c0" and ats: "ats s' = (ats s)[t := c]"
    and len: "length (replies s) \<le> length (replies s')"
    and eq: "\<And>i. reg (brk s') i + sends i c + buf s' i + owns i c0 =
                  reg (brk s) i + sends i c0 + buf s i + owns i c"
    and own: "\<And>i. owns i c \<le> owns i c0"
  shows "token_inv s' \<and> (\<forall>i < length (replies s). sums (owns i) s' \<le> sums (owns i) s)"
proof -
  have o: "sums (owns i) s' + owns i c0 = sums (owns i) s + owns i c" for i
    using runs_ats [OF run] ats by (intro sums_update) auto
  have p: "sums (sends i) s' + sends i c0 = sums (sends i) s + sends i c" for i
    using runs_ats [OF run] ats by (intro sums_update) auto
  have le: "sums (owns i) s' \<le> sums (owns i) s" for i using o [of i] own [of i] by simp
  have tok: "reg (brk s) i + sums (sends i) s + buf s i = sums (owns i) s" "sums (owns i) s \<le> 1" for i
    using inv by (auto simp: token_inv_def)
  have "reg (brk s') i + sums (sends i) s' + buf s' i = sums (owns i) s'" for i
    using o [of i] p [of i] eq [of i] tok(1) [of i] by linarith
  moreover have "sums (owns i) s' \<le> 1" for i using le [of i] tok(2) [of i] by simp
  moreover have "sums (owns i) s' = 0" if "length (replies s') \<le> i" for i
    using le [of i] inv len that by (auto simp: token_inv_def)
  ultimately show ?thesis using le by (simp add: token_inv_def)
qed

text \<open>A parked pop: the new waiter is registered once and owned once.\<close>

lemma token_park:
  assumes inv: "token_inv s" and run: "runs s t (PopLock cs)"
    and ats: "ats s' = (ats s)[t := PopWait w cs]" and w: "w = length (replies s)"
    and r: "replies s' = replies s @ [[]]"
    and ws: "waiters (brk s') = waiters (brk s) @ [\<lparr>wId = w, wChannels = cs\<rparr>]"
  shows "token_inv s'" and "i < length (replies s) \<Longrightarrow> sums (owns i) s' = sums (owns i) s"
proof -
  have o: "sums (owns i) s' + owns i (PopLock cs) = sums (owns i) s + owns i (PopWait w cs)" for i
    using runs_ats [OF run] ats by (intro sums_update) auto
  have p: "sums (sends i) s' + sends i (PopLock cs) = sums (sends i) s + sends i (PopWait w cs)" for i
    using runs_ats [OF run] ats by (intro sums_update) auto
  show "i < length (replies s) \<Longrightarrow> sums (owns i) s' = sums (owns i) s"
    using o [of i] w by simp
  have tok: "reg (brk s) i + sums (sends i) s + buf s i = sums (owns i) s" "sums (owns i) s \<le> 1"
    "length (replies s) \<le> i \<Longrightarrow> sums (owns i) s = 0" for i
    using inv by (auto simp: token_inv_def)
  have zero: "reg (brk s) w = 0" using tok [of w] w by simp
  have reg: "reg (brk s') i = reg (brk s) i + (if w = i then 1 else 0)" for i
    using zero ws by (cases "w = i") (auto simp: reg_def)
  have buf: "buf s' i = buf s i" for i
    using r by (auto simp: buf_def nth_append less_Suc_eq)
  have "reg (brk s') i + sums (sends i) s' + buf s' i = sums (owns i) s'" for i
    using o [of i] p [of i] tok(1) [of i] by (simp add: reg buf split: if_splits)
  moreover have "sums (owns i) s' \<le> 1" for i
    using o [of i] tok(2,3) [of i] w by (cases "w = i") simp_all
  moreover have "sums (owns i) s' = 0" if "length (replies s') \<le> i" for i
    using o [of i] tok(3) [of i] that r w by simp
  ultimately show "token_inv s'" by (simp add: token_inv_def)
qed

lemma buf_of_sender:
  assumes inv: "token_inv s" and run: "runs s t (PushReply w d)"
  shows "buf s w = 0 \<and> reg (brk s) w = 0 \<and> sums (owns w) s = 1 \<and> w < length (replies s)"
proof -
  have "1 \<le> sums (sends w) s"
    using sums_ge [OF runs_in_ats [OF run], of "sends w"] by simp
  moreover have "reg (brk s) w + sums (sends w) s + buf s w = sums (owns w) s" "sums (owns w) s \<le> 1"
    "length (replies s) \<le> w \<Longrightarrow> sums (owns w) s = 0"
    using inv by (auto simp: token_inv_def)
  ultimately show ?thesis by linarith
qed

lemma step_token:
  assumes "step s e s'" and inv: "sys_inv s"
  shows "token_inv s' \<and> (\<forall>i < length (replies s). sums (owns i) s' \<le> sums (owns i) s)"
proof -
  have tok: "token_inv s" and b: "broker_inv (brk s)" using inv by (auto simp: sys_inv_def)
  note move = token_move [OF tok]
  from assms(1) show ?thesis
  proof cases
    case spawn
    then show ?thesis using tok by (simp add: token_inv_def sums_def ats_def)
  next
    case (ctx_done t c err)
    then show ?thesis
      using tok runs_ats [OF ctx_done(3)] by (simp add: token_inv_def sums_def ats_same_at runs_def)
  next
    case (call_push t c p cx)
    then show ?thesis
      by (intro move [OF call_push(3), where c = "pushEnter (brk s) c p"])
         (simp_all add: ats_call pushEnter_plain)
  next
    case (call_pop t cs cx)
    then show ?thesis
      by (intro move [OF call_pop(3), where c = "popEnter cs"])
         (simp_all add: ats_call popEnter_plain)
  next
    case (push_handoff t c p w d b')
    have "reg b' i + (if w = i then 1 else 0) = reg (brk s) i" for i
      using b push_handoff(4) by (rule reg_handoff)
    then show ?thesis
      by (intro move [OF push_handoff(3), where c = "PushReply w d"])
         (use push_handoff(2) in \<open>simp_all add: ats_goto\<close>)
  next
    case (push_enqueue t c p b')
    then show ?thesis
      by (intro move [OF push_enqueue(3), where c = "PushRet None"])
         (simp_all add: ats_goto reg_enqueue)
  next
    case (push_full t c p sig q m n b')
    then have "b' = brk s" using pushLocked_Full by blast
    then show ?thesis
      by (intro move [OF push_full(3), where c = "if n then PushNotify c p sig q m else PushWait c p sig"])
         (use         push_full(2) in \<open>simp_all add: ats_goto\<close>)
  next
    case (push_send t w d)
    then show ?thesis
      by (intro move [OF push_send(3), where c = "PushRet None"])
         (use buf_of_sender [OF tok push_send(3)] in \<open>simp_all add: ats_goto\<close>)
  next
    case (push_notify t c p sig q m)
    then show ?thesis
      by (intro move [OF push_notify(3), where c = "PushWait c p sig"])
         (simp_all add: ats_goto)
  next
    case (push_drained t c p sig)
    then show ?thesis
      by (intro move [OF push_drained(3), where c = "PushLock c p"])
         (simp_all add: ats_goto)
  next
    case (push_ctx t c p sig err)
    then show ?thesis
      by (intro move [OF push_ctx(3), where c = "PushRet (Some (timeoutFromContext err))"])
         (simp_all add: ats_goto)
  next
    case (push_return t res)
    then show ?thesis
      by (intro move [OF push_return(3), where c = Idle])
         (simp_all add: ats_goto)
  next
    case (pop_queued t cs d b')
    then have "reg b' = reg (brk s)" using popLocked_waiters [OF b pop_queued(4)] by (auto simp: reg_def)
    then show ?thesis
      by (intro move [OF pop_queued(3), where c = "PopRet (Inr d)"])
         (use pop_queued(2) in \<open>simp_all add: ats_goto\<close>)
  next
    case (pop_expired t cs err b')
    then have "reg b' = reg (brk s)" using popLocked_waiters [OF b pop_expired(4)] by (auto simp: reg_def)
    then show ?thesis
      by (intro move [OF pop_expired(3), where c = "PopRet (Inl err)"])
         (use pop_expired(2) in \<open>simp_all add: ats_goto\<close>)
  next
    case (pop_park t cs w b')
    have w: "w = length (replies s)"
      and ws: "waiters b' = waiters (brk s) @ [\<lparr>wId = w, wChannels = cs\<rparr>]"
      using popLocked_waiters [OF b pop_park(4)] by simp_all
    have shape: "ats s' = (ats s)[t := PopWait w cs]" "replies s' = replies s @ [[]]" "brk s' = b'"
      using pop_park(2) by (simp_all add: ats_goto)
    note park = token_park [OF tok pop_park(3) shape(1) w shape(2), unfolded shape(3), OF ws]
    from park show ?thesis by auto
  next
    case (pop_panic t cs)
    then show ?thesis using popLocked_no_panic [OF b] by simp
  next
    case (pop_receive t w cs d ds)
    then show ?thesis
      by (intro move [OF pop_receive(3), where c = "PopRet (Inr d)"])
         (use buf_Cons [OF pop_receive(4,5)] in \<open>auto simp: ats_goto\<close>)
  next
    case (pop_done t w cs)
    then show ?thesis
      by (intro move [OF pop_done(3), where c = "PopCancel w cs"])
         (simp_all add: ats_goto)
  next
    case (pop_removed t w cs b')
    have "reg b' i + (if w = i then 1 else 0) = reg (brk s) i" for i
      using b pop_removed(4) by (rule reg_remove)
    then show ?thesis
      by (intro move [OF pop_removed(3), where c = "PopPoll w cs"])
         (use pop_removed(2) in \<open>simp_all add: ats_goto\<close>)
  next
    case (pop_claimed t w cs b')
    then show ?thesis
      by (intro move [OF pop_claimed(3), where c = "PopTake w cs"])
         (simp_all add: ats_goto removeWaiterLocked_False)
  next
    case (pop_take t w cs d ds)
    then show ?thesis
      by (intro move [OF pop_take(3), where c = "PopRet (Inr d)"])
         (use buf_Cons [OF pop_take(4,5)] in \<open>auto simp: ats_goto\<close>)
  next
    case (pop_poll_message t w cs d ds)
    have "sums (owns w) s = 0" "reg (brk s) w + sums (sends w) s + buf s w = sums (owns w) s"
      using inv tok runs_in_ats [OF pop_poll_message(3)]
      by (auto simp: sys_inv_def poll_inv_def token_inv_def)
    then show ?thesis using pop_poll_message(4,5) by (simp add: buf_def)
  next
    case (pop_poll_default t w cs err)
    then show ?thesis
      by (intro move [OF pop_poll_default(3), where c = "PopRet (Inl (timeoutFromContext err))"])
         (simp_all add: ats_goto)
  next
    case (pop_return t res)
    then show ?thesis
      by (intro move [OF pop_return(3), where c = Idle])
         (simp_all add: ats_goto)
  qed
qed

lemma in_ats_goto: "c \<in> set (ats (goto s t x)) \<Longrightarrow> c = x \<or> c \<in> set (ats s)"
  using set_update_subset_insert [of "ats s" t x] by (auto simp: ats_goto)

lemma in_ats_call:
  "c \<in> set (ats (s\<lparr>threads := (threads s)[t := th]\<rparr>)) \<Longrightarrow> c = at th \<or> c \<in> set (ats s)"
  using set_update_subset_insert [of "ats s" t "at th"] by (auto simp: ats_call)

lemma in_ats_spawn:
  "c \<in> set (ats (s\<lparr>threads := threads s @ [th]\<rparr>)) \<longleftrightarrow> c = at th \<or> c \<in> set (ats s)"
  by (auto simp: ats_def)

lemma in_ats_ctx:
  "runs s t c0 \<Longrightarrow>
   ats (s\<lparr>threads := (threads s)[t := (threads s ! t)\<lparr>ctx := x\<rparr>]\<rparr>) = ats s"
  by (rule ats_same_at) (simp_all add: runs_def)

lemma blocked_must_wait:
  assumes "broker_inv b" and "int (length p) \<le> maxBytes b" and "pushLocked b c p = (Full sig q m n, b')"
  shows "b' = b \<and> must_wait b p sig"
proof -
  have "i64 (queuedBytes b + i64 (int (length p))) = queuedBytes b + int (length p)"
    using assms by (intro sum_exact) (auto simp: broker_inv_def)
  with assms pushLocked_Full [of b c p sig q m n b'] show ?thesis
    by (auto simp: must_wait_def broker_inv_def signals_ok_def)
qed

lemma runs_control_ok: "sys_inv s \<Longrightarrow> runs s t c \<Longrightarrow> control_ok (brk s) c"
  by (auto simp: sys_inv_def dest: runs_in_ats)

lemma fresh_waiter:
  assumes "sys_inv s"
  shows "length (replies s) \<notin> wId ` set (waiters (brk s))"
proof -
  let ?n = "length (replies s)"
  have "reg (brk s) ?n + sums (sends ?n) s + buf s ?n = sums (owns ?n) s" "sums (owns ?n) s = 0"
    using assms by (auto simp: sys_inv_def token_inv_def)
  then have "reg (brk s) ?n = 0" by linarith
  then show ?thesis by (auto simp: reg_def split: if_splits)
qed

text \<open>The broker of the next state: its invariant, and how it changed.\<close>

lemma step_broker:
  assumes "step s e s'" and inv: "sys_inv s"
  shows "broker_inv (brk s') \<and> later (brk s) (brk s') \<and> \<not> crashed s'"
proof -
  have b: "broker_inv (brk s)" and nc: "\<not> crashed s" using inv by (auto simp: sys_inv_def)
  from assms(1) show ?thesis
  proof cases
    case (push_handoff t c p w d b')
    from runs_control_ok [OF inv push_handoff(3)] have "valid_channel c" "int (length p) \<le> maxBytes (brk s)"
      by simp_all
    then show ?thesis
      using push_handoff pushLocked_inv [OF b] later_push [OF b] nc by auto
  next
    case (push_enqueue t c p b')
    from runs_control_ok [OF inv push_enqueue(3)] have "valid_channel c" "int (length p) \<le> maxBytes (brk s)"
      by simp_all
    then show ?thesis
      using push_enqueue pushLocked_inv [OF b] later_push [OF b] nc by auto
  next
    case (push_full t c p sig q m n b')
    then have "b' = brk s" using pushLocked_Full by blast
    then show ?thesis using push_full b nc by simp
  next
    case (pop_park t cs w b')
    then show ?thesis
      using popLocked_inv [OF b fresh_waiter [OF inv]] later_pop [OF b] nc by auto
  next
    case (pop_queued t cs d b')
    then show ?thesis
      using popLocked_inv [OF b fresh_waiter [OF inv]] later_pop [OF b] nc by auto
  next
    case (pop_expired t cs err b')
    then show ?thesis
      using popLocked_inv [OF b fresh_waiter [OF inv]] later_pop [OF b] nc by auto
  next
    case (pop_panic t cs)
    then show ?thesis using popLocked_no_panic [OF b] by simp
  next
    case (pop_removed t w cs b')
    then show ?thesis using removeWaiterLocked_inv [OF b] later_remove nc by auto
  next
    case (pop_claimed t w cs b')
    then show ?thesis using removeWaiterLocked_inv [OF b] later_remove nc by auto
  qed (use b nc in simp_all)
qed

lemma step_control:
  assumes st: "step s e s'" and inv: "sys_inv s"
  shows "\<forall>c \<in> set (ats s'). control_ok (brk s') c"
proof -
  have old: "control_ok (brk s') c" if "c \<in> set (ats s)" for c
    using inv step_broker [OF st inv] that control_ok_later by (auto simp: sys_inv_def)
  have b: "broker_inv (brk s)" using inv by (simp add: sys_inv_def)
  note ok = runs_control_ok [OF inv]
  from st show ?thesis
  proof cases
    case (push_full t c p sig q m n b')
    have "valid_channel c" "int (length p) \<le> maxBytes (brk s)" using ok [OF push_full(3)] by simp_all
    then show ?thesis
      using push_full(2) blocked_must_wait [OF b _ push_full(4)] old
      by (auto dest!: in_ats_goto split: if_splits)
  qed (use old step_broker [OF st inv] in
        \<open>auto simp: in_ats_spawn in_ats_ctx pushEnter_ok popEnter_plain
           dest!: in_ats_goto in_ats_call dest: ok\<close>)
qed

section \<open>Preservation: who may send to whom\<close>

lemma step_frame:
  assumes "step s e s'" and inv: "sys_inv s"
  shows "length (replies s) \<le> length (replies s')"
    and "i < length (replies s) \<Longrightarrow> reg (brk s') i \<le> reg (brk s) i"
proof -
  have b: "broker_inv (brk s)" using inv by (simp add: sys_inv_def)
  from assms(1) show "length (replies s) \<le> length (replies s')" by cases simp_all
  assume i: "i < length (replies s)"
  from assms(1) show "reg (brk s') i \<le> reg (brk s) i"
  proof cases
    case (push_handoff t c p w d b')
    from reg_handoff [OF b push_handoff(4), of i] push_handoff(2) show ?thesis by simp
  next
    case (push_enqueue t c p b')
    then show ?thesis by (simp add: reg_enqueue)
  next
    case (push_full t c p sig q m n b')
    then show ?thesis using pushLocked_Full [OF push_full(4)] by simp
  next
    case (pop_queued t cs d b')
    then show ?thesis using popLocked_waiters [OF b pop_queued(4)] by (simp add: reg_def)
  next
    case (pop_expired t cs err b')
    then show ?thesis using popLocked_waiters [OF b pop_expired(4)] by (simp add: reg_def)
  next
    case (pop_park t cs w b')
    then show ?thesis using popLocked_waiters [OF b pop_park(4)] i by (simp add: reg_def)
  next
    case (pop_removed t w cs b')
    from reg_remove [OF b pop_removed(4), of i] pop_removed(2) show ?thesis by simp
  next
    case (pop_claimed t w cs b')
    then show ?thesis by (simp add: removeWaiterLocked_False)
  qed simp_all
qed

lemma unowned:
  assumes "token_inv s" and "sums (owns i) s = 0"
  shows "reg (brk s) i = 0" and "sums (sends i) s = 0" and "buf s i = 0"
proof -
  have "reg (brk s) i + sums (sends i) s + buf s i = sums (owns i) s"
    using assms(1) by (simp add: token_inv_def)
  then show "reg (brk s) i = 0" "sums (sends i) s = 0" "buf s i = 0" using assms(2) by simp_all
qed

lemma unowned_fresh: "token_inv s \<Longrightarrow> sums (owns (length (replies s))) s = 0"
  by (simp add: token_inv_def)

lemma owner_bound:
  assumes "token_inv s" and "c \<in> set (ats s)" and "owns w c \<noteq> 0"
  shows "w < length (replies s) \<and> sums (owns w) s = 1"
proof -
  have "1 \<le> sums (owns w) s" using sums_ge [OF assms(2), of "owns w"] assms(3) by simp
  moreover have "sums (owns w) s \<le> 1" "length (replies s) \<le> w \<Longrightarrow> sums (owns w) s = 0"
    using assms(1) by (auto simp: token_inv_def)
  ultimately show ?thesis by linarith
qed

lemma step_unregistered:
  assumes st: "step s e s'" and inv: "sys_inv s"
  shows "unregistered_inv s'"
  unfolding unregistered_inv_def
proof (intro allI impI)
  fix w cs
  assume new: "PopTake w cs \<in> set (ats s')"
  have tok: "token_inv s" using inv by (simp add: sys_inv_def)
  have old: "reg (brk s') w = 0" if "PopTake w cs \<in> set (ats s)"
    using step_frame(2) [OF st inv, of w] owner_bound [OF tok that, of w] inv that
    by (auto simp: sys_inv_def unregistered_inv_def)
  from st show "reg (brk s') w = 0"
    by cases
       (use old new in \<open>auto simp: in_ats_spawn in_ats_ctx removeWaiterLocked_False pushEnter_def
          popEnter_def dest!: in_ats_goto in_ats_call split: if_splits option.splits\<close>)
qed

lemma step_poll:
  assumes st: "step s e s'" and inv: "sys_inv s"
  shows "poll_inv s'"
  unfolding poll_inv_def
proof (intro allI impI)
  fix w cs
  assume new: "PopPoll w cs \<in> set (ats s')"
  have tok: "token_inv s" using inv by (simp add: sys_inv_def)
  have old: "w < length (replies s') \<and> sums (owns w) s' = 0" if "PopPoll w cs \<in> set (ats s)"
    using step_frame(1) [OF st inv] step_token [OF st inv] inv that
    by (fastforce simp: sys_inv_def poll_inv_def)
  from st show "w < length (replies s') \<and> sums (owns w) s' = 0"
  proof cases
    case (pop_removed t v ds b')
    have "sums (owns v) s' + owns v (PopCancel v ds) = sums (owns v) s + owns v (PopPoll v ds)"
      using runs_ats [OF pop_removed(3)] pop_removed(2) by (intro sums_update) (auto simp: ats_goto)
    with owner_bound [OF tok runs_in_ats [OF pop_removed(3)], of v]
    have "v < length (replies s') \<and> sums (owns v) s' = 0" using pop_removed(2) by simp
    then show ?thesis using new old pop_removed(2) by (auto dest!: in_ats_goto)
  qed (use old new in \<open>auto simp: in_ats_spawn in_ats_ctx pushEnter_def popEnter_def
         dest!: in_ats_goto in_ats_call split: if_splits option.splits\<close>)
qed

lemma step_sender:
  assumes st: "step s e s'" and new: "PushReply w d \<in> set (ats s')"
  shows "PushReply w d \<in> set (ats s)
    \<or> (\<exists>x \<in> set (waiters (brk s)). wId x = w \<and> dChannel d \<in> set (wChannels x))"
  using st
proof cases
  case (push_handoff t c p v d' b')
  from pushLocked_Handoff [OF push_handoff(4)] show ?thesis
    using new push_handoff(2) by (auto dest!: in_ats_goto)
qed (use new in \<open>auto simp: in_ats_spawn in_ats_ctx pushEnter_def popEnter_def
       dest!: in_ats_goto in_ats_call split: if_splits option.splits\<close>)

lemma step_replies:
  assumes st: "step s e s'" and "w < length (replies s)" and "d \<in> set (replies s' ! w)"
  shows "d \<in> set (replies s ! w) \<or> PushReply w d \<in> set (ats s)"
  using st
  by cases
     (use assms(2,3) in \<open>auto simp: nth_append nth_list_update dest: runs_in_ats split: if_splits\<close>)

lemma step_waiters:
  assumes st: "step s e s'" and inv: "sys_inv s" and x: "x \<in> set (waiters (brk s'))"
  shows "x \<in> set (waiters (brk s))
    \<or> wId x = length (replies s) \<and> PopWait (wId x) (wChannels x) \<in> set (ats s')"
proof -
  have b: "broker_inv (brk s)" using inv by (simp add: sys_inv_def)
  from st show ?thesis
  proof cases
    case (push_handoff t c p w d b')
    from pushLocked_Handoff [OF push_handoff(4)] push_handoff(2) x show ?thesis by auto
  next
    case (push_enqueue t c p b')
    from pushLocked_Enqueued [OF push_enqueue(4)] push_enqueue(2) x show ?thesis by auto
  next
    case (push_full t c p sig q m n b')
    then show ?thesis using pushLocked_Full [OF push_full(4)] x by simp
  next
    case (pop_queued t cs d b')
    then show ?thesis using popLocked_waiters [OF b pop_queued(4)] x by simp
  next
    case (pop_expired t cs err b')
    then show ?thesis using popLocked_waiters [OF b pop_expired(4)] x by simp
  next
    case (pop_park t cs w b')
    have "PopWait w cs \<in> set (ats s')"
      using runs_ats [OF pop_park(3)] pop_park(2) by (simp add: ats_goto set_update_memI)
    then show ?thesis using popLocked_waiters [OF b pop_park(4)] x pop_park(2) by auto
  next
    case (pop_removed t w cs b')
    from removeWaiterLocked_True [OF pop_removed(4)] obtain us y vs where
      "waiters (brk s) = us @ y # vs" "b' = (brk s)\<lparr>waiters := us @ vs\<rparr>" .
    with pop_removed(2) x show ?thesis by auto
  next
    case (pop_claimed t w cs b')
    then show ?thesis using x by (simp add: removeWaiterLocked_False)
  qed (use x in simp_all)
qed

definition holds_waiter :: "sys \<Rightarrow> nat \<Rightarrow> string list \<Rightarrow> bool" where
  "holds_waiter s w cs \<longleftrightarrow>
     PopWait w cs \<in> set (ats s) \<or> PopCancel w cs \<in> set (ats s) \<or> PopTake w cs \<in> set (ats s)"

lemma step_holder:
  assumes st: "step s e s'" and inv: "sys_inv s" and new: "holds_waiter s' w cs"
  shows "holds_waiter s w cs
    \<or> w = length (replies s) \<and> replies s' = replies s @ [[]]
      \<and> waiters (brk s') = waiters (brk s) @ [\<lparr>wId = w, wChannels = cs\<rparr>]
      \<and> (\<forall>d. PushReply w d \<notin> set (ats s'))"
proof -
  have b: "broker_inv (brk s)" and tok: "token_inv s" using inv by (auto simp: sys_inv_def)
  from st show ?thesis
  proof cases
    case (pop_park t ds v b')
    have "sums (sends (length (replies s))) s = 0"
      by (rule unowned(2) [OF tok unowned_fresh [OF tok]])
    then have "PushReply (length (replies s)) d \<notin> set (ats s)" for d
      using sums_ge [of "PushReply (length (replies s)) d" s "sends (length (replies s))"] by auto
    then show ?thesis
      using new pop_park(2) popLocked_waiters [OF b pop_park(4)]
      by (auto simp: holds_waiter_def dest!: in_ats_goto)
  qed (use new in \<open>auto simp: holds_waiter_def in_ats_spawn in_ats_ctx pushEnter_def popEnter_def
         dest!: in_ats_goto in_ats_call dest: runs_in_ats split: if_splits option.splits\<close>)
qed

lemma step_match:
  assumes st: "step s e s'" and inv: "sys_inv s"
  shows "match_inv s'"
proof -
  have tok: "token_inv s" and m: "match_inv s" using inv by (auto simp: sys_inv_def)
  have "matches s' w cs" if h: "holds_waiter s' w cs" for w cs
    using step_holder [OF st inv h]
  proof (elim disjE conjE)
    assume old: "holds_waiter s w cs"
    then have ms: "matches s w cs" using m by (auto simp: match_inv_def holds_waiter_def)
    have w: "w < length (replies s)" using old owner_bound [OF tok] by (fastforce simp: holds_waiter_def)
    show ?thesis
      unfolding matches_def
    proof (intro conjI ballI allI impI)
      fix x
      assume "x \<in> set (waiters (brk s'))" "wId x = w"
      with step_waiters [OF st inv, of x] w ms show "wChannels x = cs" by (auto simp: matches_def)
    next
      fix d
      assume "PushReply w d \<in> set (ats s')"
      from step_sender [OF st this] ms show "dChannel d \<in> set cs" by (auto simp: matches_def)
    next
      fix d
      assume "d \<in> set (replies s' ! w)"
      from step_replies [OF st w this] ms w show "dChannel d \<in> set cs" by (auto simp: matches_def)
    qed
  next
    assume "w = length (replies s)" "replies s' = replies s @ [[]]"
      "waiters (brk s') = waiters (brk s) @ [\<lparr>wId = w, wChannels = cs\<rparr>]"
      "\<forall>d. PushReply w d \<notin> set (ats s')"
    moreover have "\<forall>x \<in> set (waiters (brk s)). wId x \<noteq> length (replies s)"
      using fresh_waiter [OF inv] by force
    ultimately show ?thesis by (auto simp: matches_def)
  qed
  then show ?thesis by (auto simp: match_inv_def holds_waiter_def)
qed

lemma step_ctx:
  assumes st: "step s e s'" and inv: "ctx_inv s"
  shows "ctx_inv s'"
proof -
  have th: "needs_ctx c \<Longrightarrow> runs s t c \<Longrightarrow> ctx_of s t \<noteq> None" for t c
    using inv by (auto simp: ctx_inv_def runs_def ctx_of_def)
  have upd: "ctx_inv (s\<lparr>threads := (threads s)[t := x]\<rparr>)" if "needs_ctx (at x) \<longrightarrow> ctx x \<noteq> None" for t x
    using inv that set_update_subset_insert [of "threads s" t x] by (auto simp: ctx_inv_def)
  have go: "ctx_inv (goto s t c)" if "needs_ctx c \<longrightarrow> ctx_of s t \<noteq> None" for t c
    using upd [of "(threads s ! t)\<lparr>at := c\<rparr>" t] that by (simp add: goto_def ctx_of_def)
  have frame: "ctx_inv (goto (s\<lparr>brk := b\<rparr>) t c) = ctx_inv (goto s t c)"
    "ctx_inv (goto (s\<lparr>replies := r\<rparr>) t c) = ctx_inv (goto s t c)"
    "ctx_inv (goto (s\<lparr>brk := b, replies := r\<rparr>) t c) = ctx_inv (goto s t c)" for b r t c
    by (simp_all add: ctx_inv_def goto_def)
  from st show ?thesis
  proof cases
    case spawn
    then show ?thesis using inv by (simp add: ctx_inv_def)
  next
    case (pop_panic t cs)
    then show ?thesis using inv by (simp add: ctx_inv_def)
  next
    case (ctx_done t c err)
    then show ?thesis by (simp add: upd)
  next
    case (pop_done t w cs)
    then show ?thesis using go by simp
  next
    case (pop_removed t w cs b')
    then show ?thesis using go th [OF _ pop_removed(3)] by (simp add: frame)
  next
    case (pop_claimed t w cs b')
    then show ?thesis using go th [OF _ pop_claimed(3)] by (simp add: frame)
  qed (auto simp: frame pushEnter_plain popEnter_plain intro!: go upd dest: th)
qed

lemma step_inv:
  assumes "step s e s'" and "sys_inv s"
  shows "sys_inv s'"
  using step_broker [OF assms] step_control [OF assms] step_token [OF assms]
    step_unregistered [OF assms] step_poll [OF assms] step_match [OF assms] step_ctx [OF assms(1)]
    assms(2)
  by (auto simp: sys_inv_def)

interpretation sys: transition_invariant sys_init step "\<lambda>_. sys_inv"
  by unfold_locales (auto intro: sys_inv_init step_inv)

end
