(* ===== verification/BrokerHistory.thy ===== *)
theory BrokerHistory
  imports BrokerSafety
begin

text \<open>
  The histories of the concurrent broker: on every channel, the messages accepted are the messages
  taken out followed by the queue, in order; and the messages taken out are the messages returned
  by pops together with those in flight between a push and the pop it handed its message to.
\<close>

section \<open>Histories\<close>

lemma history_simps [simp]:
  "accepted [] = []" "taken [] = []" "returned [] = []"
  "accepted (es @ [e]) = accepted es @ stored_of e"
  "taken (es @ [e]) = taken es @ taken_of e"
  "returned (es @ [e]) = returned es @ returned_of e"
  by (simp_all add: accepted_def taken_def returned_def)

lemma popLocked_got:
  assumes inv: "broker_inv b" and step: "popLocked b cs cx new = Ret (PopGot d, b')"
  shows "dChannel d \<in> set cs \<and> queueOf b (dChannel d) = dPayload d # queueOf b' (dChannel d)
    \<and> (\<forall>c. c \<noteq> dChannel d \<longrightarrow> queueOf b' c = queueOf b c)"
  using inv
proof (cases rule: popQueuedLocked_cases [where cs = cs])
  case empty
  then show ?thesis using step by (simp add: popLocked_def split: option.splits)
next
  case (taken before c after p rest)
  then show ?thesis using step by (auto simp: popLocked_def queueOf_after_take)
qed

lemma popLocked_not_got:
  assumes inv: "broker_inv b" and step: "popLocked b cs cx new = Ret (res, b')"
    and "\<forall>d. res \<noteq> PopGot d"
  shows "queues b' = queues b \<and> (\<forall>c \<in> set cs. queueOf b c = [])"
  using inv
proof (cases rule: popQueuedLocked_cases [where cs = cs])
  case empty
  then show ?thesis using step by (auto simp: popLocked_def split: option.splits)
next
  case (taken before c after p rest)
  then show ?thesis using step assms(3) by (auto simp: popLocked_def)
qed

text \<open>
  One step, seen from one channel: what was queued and what the step stores is what it takes out
  and what is then queued, in order.
\<close>

lemma step_fifo:
  assumes st: "step s e s'" and inv: "sys_inv s"
  shows "queueOf (brk s) c @ on_key c (stored_of e) = on_key c (taken_of e) @ queueOf (brk s') c"
proof -
  have b: "broker_inv (brk s)" using inv by (simp add: sys_inv_def)
  from st show ?thesis
  proof cases
    case (push_handoff t ch p w d b')
    from pushLocked_Handoff [OF push_handoff(4)] obtain us x vs where
      d: "d = \<lparr>dChannel = ch, dPayload = p\<rparr>" and x: "waiters (brk s) = us @ x # vs"
      "ch \<in> set (wChannels x)" "b' = (brk s)\<lparr>waiters := us @ vs\<rparr>" by blast
    then have "queueOf (brk s) ch = []"
      using b by (auto simp: broker_inv_def waiters_ok_def queueOf_def)
    then show ?thesis using push_handoff(1,2) d x by (auto simp: queueOf_def)
  next
    case (push_enqueue t ch p b')
    then show ?thesis by (simp add: queueOf_enqueued)
  next
    case (push_full t ch p sig q m n b')
    then show ?thesis using pushLocked_Full [OF push_full(4)] by simp
  next
    case (pop_queued t cs d b')
    then show ?thesis using popLocked_got [OF b pop_queued(4)] by (cases "c = dChannel d") auto
  next
    case (pop_expired t cs err b')
    then show ?thesis using popLocked_not_got [OF b pop_expired(4)] by (simp add: queueOf_def)
  next
    case (pop_park t cs w b')
    then show ?thesis using popLocked_not_got [OF b pop_park(4)] by (simp add: queueOf_def)
  next
    case (pop_removed t w cs b')
    then show ?thesis by (auto elim!: removeWaiterLocked_True simp: queueOf_def)
  next
    case (pop_claimed t w cs b')
    then show ?thesis by (simp add: removeWaiterLocked_False)
  qed simp_all
qed

interpretation fifo: transition_invariant sys_init step
  "\<lambda>es s. sys_inv s \<and> (\<forall>c. on_key c (accepted es) = on_key c (taken es) @ queueOf (brk s) c)"
proof
  fix s
  assume "sys_init s"
  moreover from this have "queueOf (brk s) c = []" for c
    by (auto simp: sys_init_def sys_start_def SetOnBlock_def NewBroker_def queueOf_def)
  ultimately show "sys_inv s \<and> (\<forall>c. on_key c (accepted []) = on_key c (taken []) @ queueOf (brk s) c)"
    by (simp add: sys_inv_init)
next
  fix es s e s'
  assume "sys_inv s \<and> (\<forall>c. on_key c (accepted es) = on_key c (taken es) @ queueOf (brk s) c)"
    and "step s e s'"
  then show "sys_inv s'
      \<and> (\<forall>c. on_key c (accepted (es @ [e])) = on_key c (taken (es @ [e])) @ queueOf (brk s') c)"
    using step_fifo [of s e s'] step_inv [of s e s'] by simp
qed

section \<open>Messages in flight\<close>

definition as_pair :: "delivery \<Rightarrow> string \<times> bytes" where
  "as_pair d = (dChannel d, dPayload d)"

definition flight :: "sys \<Rightarrow> (string \<times> bytes) multiset" where
  "flight s = sums (\<lambda>c. mset (sending c)) s + sum_list (map (\<lambda>ds. mset (map as_pair ds)) (replies s))"

lemma mset_in_flight: "mset (in_flight s) = flight s"
proof -
  have "mset (concat (map (sending \<circ> at) (ts :: thread list))) = sum_list (map (\<lambda>c. mset (sending c)) (map at ts))" for ts
    by (induction ts) simp_all
  moreover have "mset (map (\<lambda>d. (dChannel d, dPayload d)) (concat rs))
      = sum_list (map (\<lambda>ds. mset (map as_pair ds)) rs)" for rs
    by (induction rs) (simp_all add: as_pair_def)
  ultimately show ?thesis by (simp add: in_flight_def flight_def sums_def ats_def)
qed

lemma flight_move:
  assumes "runs s t c0" and "ats s' = (ats s)[t := c]" and "replies s' = replies s"
  shows "flight s' + mset (sending c0) = flight s + mset (sending c)"
  using sums_update [of t s c0 s' c "\<lambda>c. mset (sending c)"] runs_ats [OF assms(1)] assms(2,3)
  by (simp add: flight_def ac_simps)

lemma flight_replies:
  assumes "runs s t c0" and "ats s' = (ats s)[t := c]" and "w < length (replies s)"
    and "replies s' = (replies s)[w := ds]"
  shows "flight s' + mset (sending c0) + mset (map as_pair (replies s ! w))
    = flight s + mset (sending c) + mset (map as_pair ds)"
proof -
  let ?f = "\<lambda>ds. mset (map as_pair ds)"
  have "sums (\<lambda>c. mset (sending c)) s' + mset (sending c0) = sums (\<lambda>c. mset (sending c)) s + mset (sending c)"
    using runs_ats [OF assms(1)] assms(2) by (intro sums_update) auto
  moreover have "sum_list (map ?f (replies s')) + ?f (replies s ! w) = sum_list (map ?f (replies s)) + ?f ds"
    unfolding assms(4) using assms(3) by (rule sum_list_map_update)
  ultimately show ?thesis by (simp add: flight_def ac_simps)
qed

lemma flight_brk [simp]: "flight (goto (s\<lparr>brk := b\<rparr>) t c) = flight (goto s t c)"
  by (simp add: flight_def sums_def ats_goto)

lemma flight_goto: "runs s t c0 \<Longrightarrow> flight (goto s t c) + mset (sending c0) = flight s + mset (sending c)"
  by (rule flight_move) (simp_all add: ats_goto)

lemma flight_quiet: "runs s t c0 \<Longrightarrow> sending c0 = [] \<Longrightarrow> flight (goto s t c) = flight s + mset (sending c)"
  using flight_goto by fastforce

lemma sending_pushEnter [simp]: "sending (pushEnter b c p) = []"
  by (simp add: pushEnter_def split: option.splits)

lemma sending_popEnter [simp]: "sending (popEnter cs) = []"
  by (simp add: popEnter_def split: option.splits)

lemma step_flight:
  assumes st: "step s e s'" and inv: "sys_inv s"
  shows "mset (taken_of e) + flight s = mset (returned_of e) + flight s'"
  using st
proof cases
  case spawn
  then show ?thesis by (simp add: flight_def sums_def ats_def)
next
  case (ctx_done t c err)
  then show ?thesis using in_ats_ctx [OF ctx_done(3)] by (simp add: flight_def sums_def)
next
  case (call_push t c p cx)
  from flight_move [OF call_push(3), of s' "pushEnter (brk s) c p"] call_push(1,2) show ?thesis
    by (simp add: ats_call)
next
  case (call_pop t cs cx)
  from flight_move [OF call_pop(3), of s' "popEnter cs"] call_pop(1,2) show ?thesis
    by (simp add: ats_call)
next
  case (push_send t w d)
  from flight_replies [OF push_send(3), of s' "PushRet None" w "[d]"] push_send show ?thesis
    by (simp add: ats_goto as_pair_def)
next
  case (pop_park t cs w b')
  from sums_update [of t s "PopLock cs" s' "PopWait w cs" "\<lambda>c. mset (sending c)"]
    runs_ats [OF pop_park(3)] pop_park(1,2) show ?thesis
    by (simp add: flight_def ats_goto)
next
  case (pop_panic t cs)
  then show ?thesis by (simp add: flight_def sums_def)
next
  case (pop_receive t w cs d ds)
  from flight_replies [OF pop_receive(3), of s' "PopRet (Inr d)" w ds] pop_receive show ?thesis
    by (simp add: ats_goto as_pair_def)
next
  case (pop_take t w cs d ds)
  from flight_replies [OF pop_take(3), of s' "PopRet (Inr d)" w ds] pop_take show ?thesis
    by (simp add: ats_goto as_pair_def)
next
  case (pop_poll_message t w cs d ds)
  from flight_replies [OF pop_poll_message(3), of s' "PopRet (Inr d)" w ds] pop_poll_message
  show ?thesis by (simp add: ats_goto as_pair_def)
qed (simp_all add: flight_quiet)


interpretation flow: transition_invariant sys_init step
  "\<lambda>es s. sys_inv s \<and> mset (taken es) = mset (returned es) + flight s"
proof
  fix s
  assume "sys_init s"
  moreover from this have "flight s = {#}"
    by (auto simp: sys_init_def sys_start_def flight_def sums_def ats_def)
  ultimately show "sys_inv s \<and> mset (taken []) = mset (returned []) + flight s"
    by (simp add: sys_inv_init)
next
  fix es s e s'
  assume "sys_inv s \<and> mset (taken es) = mset (returned es) + flight s" and "step s e s'"
  then show "sys_inv s' \<and> mset (taken (es @ [e])) = mset (returned (es @ [e])) + flight s'"
    using step_flight [of s e s'] step_inv [of s e s'] by (auto simp: ac_simps)
qed

lemma mset_on_key: "mset (on_key c xs) = image_mset snd (filter_mset (\<lambda>km. fst km = c) (mset xs))"
  by (simp add: on_key_def)

section \<open>Progress of the hand-over\<close>

lemma sums_pos: "0 < (sums f s :: nat) \<Longrightarrow> \<exists>c \<in> set (ats s). 0 < f c"
  by (auto simp: sums_def sum_list_nonneg_eq_0_iff) (metis neq0_conv sum_list_eq_0_iff list.set_map imageE)

lemma sender_ready:
  assumes inv: "sys_inv s" and run: "runs s t (PushReply w d)"
  shows "w < length (replies s) \<and> replies s ! w = []"
  using buf_of_sender [of s t w d] assms by (auto simp: sys_inv_def buf_def)

lemma taker_served:
  assumes inv: "sys_inv s" and run: "runs s t (PopTake w cs)"
  shows "w < length (replies s) \<and> (replies s ! w \<noteq> [] \<or> (\<exists>u d. runs s u (PushReply w d)))"
proof -
  have tok: "token_inv s" and nc: "\<not> crashed s" and unreg: "reg (brk s) w = 0"
    using inv runs_in_ats [OF run] by (auto simp: sys_inv_def unregistered_inv_def)
  have own: "w < length (replies s)" "sums (owns w) s = 1"
    using owner_bound [OF tok runs_in_ats [OF run], of w] by simp_all
  moreover have "reg (brk s) w + sums (sends w) s + buf s w = sums (owns w) s"
    using tok by (simp add: token_inv_def)
  ultimately have "sums (sends w) s + buf s w = 1" using unreg by linarith
  then consider "0 < buf s w" | "0 < sums (sends w) s" by linarith
  then show ?thesis
  proof cases
    case 1
    then show ?thesis using own by (simp add: buf_def)
  next
    case 2
    then obtain c where c: "c \<in> set (ats s)" "0 < sends w c" using sums_pos by blast
    from c(2) obtain d where "c = PushReply w d" by (cases c) (auto split: if_splits)
    with c(1) have "PushReply w d \<in> set (ats s)" by simp
    from in_ats_runs [OF this nc] own show ?thesis by blast
  qed
qed

lemma waiting_pop_matches:
  assumes "sys_inv s" and "runs s t c" and "c = PopWait w cs \<or> c = PopTake w cs"
    and "w < length (replies s)" and "d \<in> set (replies s ! w)"
  shows "dChannel d \<in> set cs"
  using assms runs_in_ats [OF assms(2)] by (auto simp: sys_inv_def match_inv_def matches_def)

lemma polled_empty:
  assumes "sys_inv s" and "runs s t (PopPoll w cs)"
  shows "w < length (replies s) \<and> replies s ! w = [] \<and> ctx_of s t \<noteq> None"
proof -
  have w: "w < length (replies s)" "sums (owns w) s = 0"
    using assms runs_in_ats [OF assms(2)] by (auto simp: sys_inv_def poll_inv_def)
  then have "buf s w = 0" using assms(1) unowned by (auto simp: sys_inv_def)
  moreover have "threads s ! t \<in> set (threads s)" "needs_ctx (at (threads s ! t))"
    using assms(2) by (auto simp: runs_def)
  ultimately show ?thesis using w assms(1) by (auto simp: buf_def sys_inv_def ctx_inv_def ctx_of_def)
qed

end
