(* ===== verification/BrokerSched.thy ===== *)
theory BrokerSched imports BrokerHistory begin

datatype action =
    ASpawn
  | ACtx nat goerr
  | APush nat string bytes "goerr option"
  | APop nat "string list" "goerr option"
  | AStep nat
  | AAlt nat

text \<open>The default arm of the goroutine's next segment.\<close>

fun perform_step :: "sys \<Rightarrow> nat \<Rightarrow> control \<Rightarrow> (event \<times> sys) option" where
  "perform_step s t Idle = None"
| "perform_step s t (PushLock c p) =
     (case pushLocked (brk s) c p of
        (Handoff w d, b') \<Rightarrow> Some (HandedOver d, goto (s\<lparr>brk := b'\<rparr>) t (PushReply w d))
      | (Enqueued, b') \<Rightarrow>
          Some (Stored \<lparr>dChannel = c, dPayload = p\<rparr>, goto (s\<lparr>brk := b'\<rparr>) t (PushRet None))
      | (Full sig q m n, b') \<Rightarrow>
          Some (Tau, goto (s\<lparr>brk := b'\<rparr>) t
            (if n then PushNotify c p sig q m else PushWait c p sig)))"
| "perform_step s t (PushReply w d) =
     (if w < length (replies s) \<and> replies s ! w = []
      then Some (Tau, goto (s\<lparr>replies := (replies s)[w := [d]]\<rparr>) t (PushRet None)) else None)"
| "perform_step s t (PushNotify c p sig q m) = Some (Blocked c q m, goto s t (PushWait c p sig))"
| "perform_step s t (PushWait c p sig) =
     (if sig < length (signals (brk s)) \<and> signals (brk s) ! sig
      then Some (Tau, goto s t (PushLock c p)) else None)"
| "perform_step s t (PushRet res) = Some (Tau, goto s t Idle)"
| "perform_step s t (PopLock cs) =
     (case popLocked (brk s) cs (ctx_of s t) (length (replies s)) of
        Panics \<Rightarrow> Some (Tau, s\<lparr>crashed := True\<rparr>)
      | Ret (PopGot d, b') \<Rightarrow> Some (Served t cs d, goto (s\<lparr>brk := b'\<rparr>) t (PopRet (Inr d)))
      | Ret (PopFailed err, b') \<Rightarrow> Some (Tau, goto (s\<lparr>brk := b'\<rparr>) t (PopRet (Inl err)))
      | Ret (PopParked w, b') \<Rightarrow>
          Some (Tau, goto (s\<lparr>brk := b', replies := replies s @ [[]]\<rparr>) t (PopWait w cs)))"
| "perform_step s t (PopWait w cs) =
     (if w < length (replies s) then
        (case replies s ! w of
           [] \<Rightarrow> None
         | d # ds \<Rightarrow>
             Some (Received t cs d,
               goto (s\<lparr>replies := (replies s)[w := ds]\<rparr>) t (PopRet (Inr d))))
      else None)"
| "perform_step s t (PopCancel w cs) =
     (case removeWaiterLocked (brk s) w of
        (True, b') \<Rightarrow> Some (Tau, goto (s\<lparr>brk := b'\<rparr>) t (PopPoll w cs))
      | (False, b') \<Rightarrow> Some (Tau, goto (s\<lparr>brk := b'\<rparr>) t (PopTake w cs)))"
| "perform_step s t (PopTake w cs) =
     (if w < length (replies s) then
        (case replies s ! w of
           [] \<Rightarrow> None
         | d # ds \<Rightarrow>
             Some (Received t cs d,
               goto (s\<lparr>replies := (replies s)[w := ds]\<rparr>) t (PopRet (Inr d))))
      else None)"
| "perform_step s t (PopPoll w cs) =
     (if w < length (replies s) then
        (case replies s ! w of
           [] \<Rightarrow>
             (case ctx_of s t of
                None \<Rightarrow> None
              | Some err \<Rightarrow> Some (Tau, goto s t (PopRet (Inl (timeoutFromContext err)))))
         | d # ds \<Rightarrow>
             Some (Received t cs d,
               goto (s\<lparr>replies := (replies s)[w := ds]\<rparr>) t (PopRet (Inr d))))
      else None)"
| "perform_step s t (PopRet res) = Some (Tau, goto s t Idle)"

text \<open>The arm of a \<open>select\<close> that waits for the context.\<close>

fun perform_alt :: "sys \<Rightarrow> nat \<Rightarrow> control \<Rightarrow> (event \<times> sys) option" where
  "perform_alt s t (PushWait c p sig) =
     (case ctx_of s t of
        None \<Rightarrow> None
      | Some err \<Rightarrow> Some (Tau, goto s t (PushRet (Some (timeoutFromContext err)))))"
| "perform_alt s t (PopWait w cs) =
     (if ctx_of s t \<noteq> None then Some (Tau, goto s t (PopCancel w cs)) else None)"
| "perform_alt s t c = None"

fun perform :: "sys \<Rightarrow> action \<Rightarrow> (event \<times> sys) option" where
  "perform s ASpawn =
     (if crashed s then None
      else Some (Tau, s\<lparr>threads := threads s @ [\<lparr>at = Idle, ctx = None\<rparr>]\<rparr>))"
| "perform s (ACtx t err) =
     (if \<not> crashed s \<and> t < length (threads s) \<and> ctx_of s t = None
         \<and> (err = Canceled \<or> err = DeadlineExceeded)
      then Some (Tau, s\<lparr>threads := (threads s)[t := (threads s ! t)\<lparr>ctx := Some err\<rparr>]\<rparr>)
      else None)"
| "perform s (APush t c p cx) =
     (if runs s t Idle
      then Some (Tau, s\<lparr>threads := (threads s)[t := \<lparr>at = pushEnter (brk s) c p, ctx = cx\<rparr>]\<rparr>)
      else None)"
| "perform s (APop t cs cx) =
     (if runs s t Idle
      then Some (Tau, s\<lparr>threads := (threads s)[t := \<lparr>at = popEnter cs, ctx = cx\<rparr>]\<rparr>)
      else None)"
| "perform s (AStep t) =
     (if \<not> crashed s \<and> t < length (threads s) then perform_step s t (at (threads s ! t)) else None)"
| "perform s (AAlt t) =
     (if \<not> crashed s \<and> t < length (threads s) then perform_alt s t (at (threads s ! t)) else None)"

lemmas push_full_arms = push_full [where notify = True, simplified] push_full [where notify = False, simplified]

lemma perform_step_sound:
  "perform_step s t c = Some (e, s') \<Longrightarrow> runs s t c \<Longrightarrow> step s e s'"
  by (cases c)
     (auto intro: step.intros push_full_arms split: prod.splits push_outcome.splits outcome.splits
        pop_outcome.splits list.splits option.splits bool.splits if_splits)

lemma perform_alt_sound:
  "perform_alt s t c = Some (e, s') \<Longrightarrow> runs s t c \<Longrightarrow> step s e s'"
  by (cases c) (auto intro: push_ctx pop_done split: option.splits if_splits)

lemma perform_sound: "perform s a = Some (e, s') \<Longrightarrow> step s e s'"
  by (cases a)
     (auto intro: spawn ctx_done call_push call_pop perform_step_sound perform_alt_sound
        simp: runs_def split: if_splits)

lemma perform_by_step:
  "runs s t c \<Longrightarrow> perform_step s t c = Some (e, s') \<Longrightarrow> \<exists>a. perform s a = Some (e, s')"
  by (rule exI [of _ "AStep t"]) (simp add: runs_def)

lemma perform_complete:
  assumes "step s e s'"
  shows "\<exists>a. perform s a = Some (e, s')"
  using assms
proof cases
  case spawn
  then show ?thesis by (intro exI [of _ ASpawn]) simp
next
  case (ctx_done t c err)
  then show ?thesis by (intro exI [of _ "ACtx t err"]) (auto simp: runs_def)
next
  case (call_push t c p cx)
  then show ?thesis by (intro exI [of _ "APush t c p cx"]) simp
next
  case (call_pop t cs cx)
  then show ?thesis by (intro exI [of _ "APop t cs cx"]) simp
next
  case (push_ctx t c p sig err)
  then show ?thesis by (intro exI [of _ "AAlt t"]) (simp add: runs_def)
next
  case (pop_done t w cs)
  then show ?thesis by (intro exI [of _ "AAlt t"]) (simp add: runs_def)
qed (erule perform_by_step, simp)+

interpretation goroutines: scheduler sys_init step perform
  by unfold_locales (rule perform_sound)

section \<open>Concrete executions\<close>

abbreviation perform_all :: "sys \<Rightarrow> action list \<Rightarrow> (event list \<times> sys) option" where
  "perform_all \<equiv> run_all perform"

abbreviation leads :: "sys \<Rightarrow> action list \<Rightarrow> (event list \<Rightarrow> sys \<Rightarrow> bool) \<Rightarrow> bool" where
  "leads \<equiv> run_leads perform"

lemma sys_start_init: "0 \<le> mb \<Longrightarrow> 0 \<le> mq \<Longrightarrow> mq + mb < 2 ^ 63 \<Longrightarrow> sys_init (sys_start mb mq f)"
  by (auto simp: sys_init_def)

lemma scheduled_execution:
  assumes "0 \<le> mb" and "0 \<le> mq" and "mq + mb < 2 ^ 63"
    and "perform_all (sys_start mb mq f) as = Some (es, s)"
  shows "execution sys_init step es s"
  using goroutines.run_execution [OF exec_start assms(4)] sys_start_init [OF assms(1-3)] by simp

lemma leads_execution:
  assumes run: "leads (sys_start mb mq f) as P"
    and lim: "0 \<le> mb" "0 \<le> mq" "mq + mb < 2 ^ 63"
  obtains es s where "execution sys_init step es s" and "P es s"
  using goroutines.leads [OF run sys_start_init [OF lim]] by blast

text \<open>
  Goroutine 0 queues three bytes on \<open>a\<close> and then blocks on \<open>b\<close>, because two more bytes do not fit in
  four; goroutine 1 then waits on \<open>b\<close>.
\<close>

definition stuck_run :: "action list" where
  "stuck_run =
     [ASpawn, ASpawn, APush 0 ''a'' [1, 2, 3] None, AStep 0, AStep 0,
      APush 0 ''b'' [4, 5] None, AStep 0, APop 1 [''b''] None, AStep 1]"

text \<open>
  Goroutine 1 waits on \<open>b\<close> and \<open>a\<close>; goroutine 0 hands it a message on \<open>a\<close> but has not sent it yet;
  the context of goroutine 1 is cancelled and it finds its waiter gone.
\<close>

definition claimed_run :: "action list" where
  "claimed_run =
     [ASpawn, ASpawn, APop 1 [''b'', ''a''] None, AStep 1, APush 0 ''a'' [7] None, AStep 0,
      ACtx 1 Canceled, AAlt 1, AStep 1]"

text \<open>Goroutine 0 waits on \<open>a\<close>, its deadline passes, and it removes its waiter.\<close>

definition poll_run :: "action list" where
  "poll_run =
     [ASpawn, APop 0 [''a''] None, AStep 0, ACtx 0 DeadlineExceeded, AAlt 0, AStep 0]"

end
