(* ===== verification/BrokerProps.thy ===== *)
theory BrokerProps
  imports BrokerSched
begin

text \<open>
  The properties of the broker: those of every execution of the concurrent system (capacity, order,
  exactly-once delivery, absence of panics and of stuck hand-overs, and the one wakeup that is
  missed), and the exact behaviour of its critical sections. Each witness evaluates a schedule with
  \<open>perform_all\<close>.
\<close>

text \<open>
  Property C3. In every execution of the broker with any number of concurrent calls, the byte
  counter is the exact total of the payloads in the queues and never exceeds the configured cap.
\<close>

theorem queue_stays_within_cap:
  assumes "execution sys_init step es s"
  shows "finite (dom (queues (brk s)))
    \<and> queuedBytes (brk s) = int (\<Sum>c\<in>dom (queues (brk s)). sum_list (map length (queueOf (brk s) c)))
    \<and> queuedBytes (brk s) \<le> maxQueuedBytes (brk s)"
proof -
  have "accounted (brk s)" using sys.always [OF assms] by (simp add: sys_inv_def broker_inv_def)
  moreover have "map_bytes (queues (brk s))
      = (\<Sum>c\<in>dom (queues (brk s)). sum_list (map length (queueOf (brk s) c)))"
    unfolding map_bytes_def by (intro sum.cong) (auto simp: queueOf_def)
  ultimately show ?thesis by (simp add: accounted_def)
qed

lemma queue_stays_within_cap_witness:
  "\<exists>es s. execution sys_init step es s \<and> queuedBytes (brk s) = 3 \<and> 3 \<le> maxQueuedBytes (brk s)"
proof -
  have "leads (sys_start 10 4 False) stuck_run (\<lambda>es s. queuedBytes (brk s) = 3)" by code_simp
  then obtain es s where "execution sys_init step es s" "queuedBytes (brk s) = 3"
    by (rule leads_execution) auto
  with queue_stays_within_cap [of es s] show ?thesis by (intro exI [of _ es] exI [of _ s]) simp
qed



text \<open>
  Property C2. In every execution, on every channel, the messages pushes were accepted for are,
  in order, the messages taken out followed by the queue: first in, first out, nothing lost,
  nothing invented.
\<close>

theorem channel_is_fifo:
  assumes "execution sys_init step es s"
  shows "on_key c (accepted es) = on_key c (taken es) @ queueOf (brk s) c"
  using fifo.always [OF assms] by blast

lemma channel_is_fifo_witness:
  "\<exists>es s. execution sys_init step es s \<and> on_key ''a'' (accepted es) = [[1, 2, 3]]
    \<and> on_key ''a'' (taken es) @ queueOf (brk s) ''a'' = [[1, 2, 3]]"
proof -
  have "leads (sys_start 10 4 False) stuck_run (\<lambda>es s. on_key ''a'' (accepted es) = [[1, 2, 3]])"
    by code_simp
  then obtain es s where "execution sys_init step es s" "on_key ''a'' (accepted es) = [[1, 2, 3]]"
    by (rule leads_execution) auto
  with channel_is_fifo [of es s "''a''"] show ?thesis
    by (intro exI [of _ es] exI [of _ s]) simp
qed

text \<open>
  Property C1. In every execution, on every channel, each message a push was accepted for is
  exactly once either returned by a pop, in the queue, or on its way from the push that handed
  it over to the pop it was handed to.
\<close>

theorem exactly_once:
  assumes "execution sys_init step es s"
  shows "mset (on_key c (accepted es))
    = mset (on_key c (returned es)) + mset (queueOf (brk s) c) + mset (on_key c (in_flight s))"
proof -
  have "mset (taken es) = mset (returned es) + mset (in_flight s)"
    using flow.always [OF assms] by (simp add: mset_in_flight)
  then have "mset (on_key c (taken es)) = mset (on_key c (returned es)) + mset (on_key c (in_flight s))"
    by (simp add: mset_on_key)
  moreover have "on_key c (accepted es) = on_key c (taken es) @ queueOf (brk s) c"
    using fifo.always [OF assms] by blast
  ultimately show ?thesis by simp
qed

lemma exactly_once_witness:
  "\<exists>es s. execution sys_init step es s \<and> returned es = []
    \<and> mset (on_key ''a'' (accepted es)) = mset (queueOf (brk s) ''a'') + mset (on_key ''a'' (in_flight s))
    \<and> on_key ''a'' (in_flight s) = [[7]]"
proof -
  have "leads (sys_start 10 4 False) claimed_run
      (\<lambda>es s. returned es = [] \<and> on_key ''a'' (in_flight s) = [[7]])" by code_simp
  then obtain es s where "execution sys_init step es s" "returned es = [] \<and> on_key ''a'' (in_flight s) = [[7]]"
    by (rule leads_execution) auto
  with exactly_once [of es s "''a''"] show ?thesis by (intro exI [of _ es] exI [of _ s]) simp
qed

text \<open>
  Property C16. No execution reaches a panic: the drain signal a pop closes is always open, so
  close never meets a closed channel, and the next pop does not panic either.
\<close>

theorem broker_never_panics:
  assumes "execution sys_init step es s"
  shows "\<not> crashed s \<and> popLocked (brk s) channels c n \<noteq> Panics"
  using sys.always [OF assms] popLocked_no_panic by (auto simp: sys_inv_def)

lemma broker_never_panics_witness:
  "\<exists>es s. execution sys_init step es s \<and> queueOf (brk s) ''a'' \<noteq> [] \<and> popLocked (brk s) [''a''] None 5 \<noteq> Panics"
proof -
  have "leads (sys_start 10 4 False) stuck_run (\<lambda>es s. queueOf (brk s) ''a'' \<noteq> [])" by code_simp
  then obtain es s where "execution sys_init step es s" "queueOf (brk s) ''a'' \<noteq> []"
    by (rule leads_execution) auto
  with broker_never_panics [of es s "[''a'']" None 5] show ?thesis
    by (intro exI [of _ es] exI [of _ s]) simp
qed

text \<open>
  Property C7. A push that waits on a drain signal which is still open does not fit into the
  queue: a pop that makes room closes the signal, so no drain is missed.
\<close>

theorem blocked_push_does_not_fit:
  assumes "execution sys_init step es s" and "runs s t (PushWait c p sig)"
  shows "sig < length (signals (brk s))
    \<and> (\<not> signals (brk s) ! sig \<longrightarrow> maxQueuedBytes (brk s) < queuedBytes (brk s) + int (length p))"
  using sys.always [OF assms(1)] runs_control_ok [OF _ assms(2)]
  by (auto simp: sys_inv_def broker_inv_def signals_ok_def must_wait_def)

lemma blocked_push_does_not_fit_witness:
  "\<exists>es s. execution sys_init step es s \<and> runs s 0 (PushWait ''b'' [4, 5] 0)
     \<and> maxQueuedBytes (brk s) < queuedBytes (brk s) + 2"
proof -
  have "leads (sys_start 10 4 False) stuck_run
      (\<lambda>es s. runs s 0 (PushWait ''b'' [4, 5] 0) \<and> \<not> signals (brk s) ! 0)" by code_simp
  then obtain es s where "execution sys_init step es s"
    "runs s 0 (PushWait ''b'' [4, 5] 0) \<and> \<not> signals (brk s) ! 0"
    by (rule leads_execution) auto
  with blocked_push_does_not_fit [of es s 0 "''b''" "[4, 5]" 0] show ?thesis
    by (intro exI [of _ es] exI [of _ s]) simp
qed

text \<open>
  Property C12. Whatever step makes a pop return a message, from the queue or from a push, the
  message is of one of the channels that pop asked for, and that pop returns it.
\<close>

theorem pop_returns_requested_channel:
  assumes "execution sys_init step es s" and "step s e s'"
    and "e = Served t cs d \<or> e = Received t cs d"
  shows "dChannel d \<in> set cs \<and> at (threads s' ! t) = PopRet (Inr d)"
proof
  have inv: "sys_inv s" using sys.always [OF assms(1)] .
  then have b: "broker_inv (brk s)" by (simp add: sys_inv_def)
  from assms(2,3) show "dChannel d \<in> set cs"
    by (cases rule: step.cases)
       (use b inv in \<open>auto dest: popLocked_got waiting_pop_matches polled_empty\<close>)
  from assms(2,3) show "at (threads s' ! t) = PopRet (Inr d)"
    by (cases rule: step.cases) (auto simp: goto_def runs_def)
qed

lemma pop_returns_requested_channel_witness:
  "\<exists>es s s'. execution sys_init step es s \<and> step s (Received 1 [''b'', ''a''] \<lparr>dChannel = ''a'', dPayload = [7]\<rparr>) s'
     \<and> at (threads s' ! 1) = PopRet (Inr \<lparr>dChannel = ''a'', dPayload = [7]\<rparr>)"
proof -
  let ?d = "\<lparr>dChannel = ''a'', dPayload = [7]\<rparr>"
  have "leads (sys_start 10 4 False) (claimed_run @ [AStep 0])
      (\<lambda>es s. case perform s (AStep 1) of None \<Rightarrow> False | Some (e, s') \<Rightarrow> e = Received 1 [''b'', ''a''] ?d)"
    by code_simp
  then obtain es s where s: "execution sys_init step es s"
    "case perform s (AStep 1) of None \<Rightarrow> False | Some (e, s') \<Rightarrow> e = Received 1 [''b'', ''a''] ?d"
    by (rule leads_execution) auto
  then obtain s' where "step s (Received 1 [''b'', ''a''] ?d) s'"
    using perform_sound [of s "AStep 1"] by (auto split: option.splits prod.splits)
  with s(1) pop_returns_requested_channel [of es s _ s' 1 "[''b'', ''a'']" ?d] show ?thesis by blast
qed

text \<open>
  Property C8. A registered waiter is never left beside a message: all the queues it names are
  empty; and it belongs to a goroutine that still waits for it or is about to remove it, so a
  push never hands a message to a pop that has returned.
\<close>

theorem waiter_has_empty_channels_and_a_waiting_pop:
  assumes "execution sys_init step es s" and "w \<in> set (waiters (brk s))"
  shows "(\<forall>c \<in> set (wChannels w). queueOf (brk s) c = [])
    \<and> (\<exists>t. runs s t (PopWait (wId w) (wChannels w)) \<or> runs s t (PopCancel (wId w) (wChannels w)))"
proof
  have inv: "sys_inv s" using sys.always [OF assms(1)] .
  then show "\<forall>c \<in> set (wChannels w). queueOf (brk s) c = []"
    using assms(2) by (auto simp: sys_inv_def broker_inv_def waiters_ok_def queueOf_def)
  have reg: "reg (brk s) (wId w) = 1" using assms(2) by (simp add: reg_def)
  have "reg (brk s) (wId w) + sums (sends (wId w)) s + buf s (wId w) = sums (owns (wId w)) s"
    using inv by (simp add: sys_inv_def token_inv_def)
  with reg have "0 < sums (owns (wId w)) s" by simp
  then obtain c where c: "c \<in> set (ats s)" "0 < owns (wId w) c" using sums_pos by blast
  obtain t where t: "runs s t c" using in_ats_runs [OF c(1)] inv by (auto simp: sys_inv_def)
  from c(2) obtain cs where "c = PopWait (wId w) cs \<or> c = PopCancel (wId w) cs \<or> c = PopTake (wId w) cs"
    by (cases c) (auto split: if_splits)
  moreover have "c \<noteq> PopTake (wId w) cs" for cs
    using inv c(1) reg by (auto simp: sys_inv_def unregistered_inv_def)
  ultimately obtain cs where cs: "c = PopWait (wId w) cs \<or> c = PopCancel (wId w) cs" by blast
  with c(1) inv assms(2) have "wChannels w = cs" by (auto simp: sys_inv_def match_inv_def matches_def)
  with t cs show "\<exists>t. runs s t (PopWait (wId w) (wChannels w)) \<or> runs s t (PopCancel (wId w) (wChannels w))"
    by blast
qed

lemma waiter_has_empty_channels_and_a_waiting_pop_witness:
  "\<exists>es s. execution sys_init step es s \<and> waiters (brk s) = [\<lparr>wId = 0, wChannels = [''b'']\<rparr>]
     \<and> queueOf (brk s) ''b'' = []"
proof -
  have "leads (sys_start 10 4 False) stuck_run
      (\<lambda>es s. waiters (brk s) = [\<lparr>wId = 0, wChannels = [''b'']\<rparr>])" by code_simp
  then obtain es s where "execution sys_init step es s"
    "waiters (brk s) = [\<lparr>wId = 0, wChannels = [''b'']\<rparr>]"
    by (rule leads_execution) auto
  with waiter_has_empty_channels_and_a_waiting_pop [of es s "\<lparr>wId = 0, wChannels = [''b'']\<rparr>"]
  show ?thesis by (intro exI [of _ es] exI [of _ s]) simp
qed

text \<open>
  Property C9. A cancelled pop that finds its waiter gone and blocks on the reply channel is
  never stuck: its message is there to receive, or the push that removed the waiter can send it
  now.
\<close>

theorem claimed_pop_is_served:
  assumes "execution sys_init step es s" and "runs s t (PopTake w cs)"
  shows "(\<exists>d s'. step s (Received t cs d) s')
    \<or> (\<exists>u d s'. runs s u (PushReply w d) \<and> step s Tau s' \<and> replies s' ! w = [d])"
proof -
  have inv: "sys_inv s" using sys.always [OF assms(1)] .
  from taker_served [OF this assms(2)] have w: "w < length (replies s)"
    and c: "replies s ! w \<noteq> [] \<or> (\<exists>u d. runs s u (PushReply w d))" by auto
  from c show ?thesis
  proof
    assume "replies s ! w \<noteq> []"
    then obtain d ds where "replies s ! w = d # ds" by (cases "replies s ! w") auto
    from pop_take [OF assms(2) w this] show ?thesis by blast
  next
    assume "\<exists>u d. runs s u (PushReply w d)"
    then obtain u d where u: "runs s u (PushReply w d)" by blast
    from push_send [OF u] sender_ready [OF inv u] have
      "step s Tau (goto (s\<lparr>replies := (replies s)[w := [d]]\<rparr>) u (PushRet None))" by blast
    moreover have "replies (goto (s\<lparr>replies := (replies s)[w := [d]]\<rparr>) u (PushRet None)) ! w = [d]"
      using w by (simp add: goto_def)
    ultimately show ?thesis using u by blast
  qed
qed

lemma claimed_pop_is_served_witness:
  "\<exists>es s. execution sys_init step es s \<and> runs s 1 (PopTake 0 [''b'', ''a''])
    \<and> ((\<exists>d s'. step s (Received 1 [''b'', ''a''] d) s')
       \<or> (\<exists>u d s'. runs s u (PushReply 0 d) \<and> step s Tau s' \<and> replies s' ! 0 = [d]))"
proof -
  have "leads (sys_start 10 4 False) claimed_run (\<lambda>es s. runs s 1 (PopTake 0 [''b'', ''a'']))"
    by code_simp
  then obtain es s where "execution sys_init step es s" "runs s 1 (PopTake 0 [''b'', ''a''])"
    by (rule leads_execution) auto
  with claimed_pop_is_served [of es s 1 0 "[''b'', ''a'']"] show ?thesis by blast
qed

text \<open>
  Fact. A push that has removed a waiter never blocks on the reply channel: the buffer of
  one is empty, so the send happens at once.
\<close>

lemma push_reply_never_blocks:
  assumes "execution sys_init step es s" and "runs s t (PushReply w d)"
  shows "perform s (AStep t) = Some (Tau, goto (s\<lparr>replies := (replies s)[w := [d]]\<rparr>) t (PushRet None))"
  using sender_ready [OF sys.always [OF assms(1)] assms(2)] assms(2) by (simp add: runs_def)

text \<open>
  Fact. When a cancelled pop has removed its own waiter, no message can be in its reply
  channel: the final select always takes its default arm and the call returns the timeout error;
  its message arm never runs.
\<close>

lemma last_select_takes_its_default:
  assumes "execution sys_init step es s" and "runs s t (PopPoll w cs)"
  shows "\<exists>err. ctx_of s t = Some err
    \<and> perform s (AStep t) = Some (Tau, goto s t (PopRet (Inl (timeoutFromContext err))))"
  using polled_empty [OF sys.always [OF assms(1)] assms(2)] assms(2) by (auto simp: runs_def)

lemma push_reply_never_blocks_witness:
  "\<exists>es s s'. execution sys_init step es s \<and> runs s 0 (PushReply 0 \<lparr>dChannel = ''a'', dPayload = [7]\<rparr>)
    \<and> perform s (AStep 0) = Some (Tau, s')"
proof -
  let ?d = "\<lparr>dChannel = ''a'', dPayload = [7]\<rparr>"
  have "leads (sys_start 10 4 False) claimed_run (\<lambda>es s. runs s 0 (PushReply 0 ?d))" by code_simp
  then obtain es s where "execution sys_init step es s" "runs s 0 (PushReply 0 ?d)"
    by (rule leads_execution) auto
  with push_reply_never_blocks [of es s 0 0 ?d] show ?thesis by blast
qed

lemma last_select_takes_its_default_witness:
  "\<exists>es s s'. execution sys_init step es s \<and> runs s 0 (PopPoll 0 [''a''])
    \<and> perform s (AStep 0) = Some (Tau, s')"
proof -
  have "leads (sys_start 10 4 False) poll_run (\<lambda>es s. runs s 0 (PopPoll 0 [''a'']))" by code_simp
  then obtain es s where "execution sys_init step es s" "runs s 0 (PopPoll 0 [''a''])"
    by (rule leads_execution) auto
  with last_select_takes_its_default [of es s 0 0 "[''a'']"] show ?thesis by blast
qed

text \<open>
  Property C10. A call whose context is done can always move: its next segment or an arm of its
  select is enabled, except for a pop whose waiter was claimed, and then the push that claimed
  it can send.
\<close>

theorem cancelled_call_can_move:
  assumes "execution sys_init step es s" and "runs s t c" and "c \<noteq> Idle" and "ctx_of s t \<noteq> None"
  shows "\<exists>u e s'. (perform s (AStep u) = Some (e, s') \<or> perform s (AAlt u) = Some (e, s'))
    \<and> (u = t \<or> (\<exists>w cs d. c = PopTake w cs \<and> runs s u (PushReply w d)))"
proof -
  have inv: "sys_inv s" using sys.always [OF assms(1)] .
  have lift: "perform s (AStep u) = perform_step s u c'" "perform s (AAlt u) = perform_alt s u c'"
    if "runs s u c'" for u c' using that by (simp_all add: runs_def)
  note here = lift [OF assms(2)]
  have own: ?thesis if "perform_step s t c \<noteq> None \<or> perform_alt s t c \<noteq> None"
    using that by (intro exI [of _ t]) (auto simp: here simp del: perform.simps)
  show ?thesis
  proof (cases c)
    case (PushLock ch p)
    then show ?thesis by (intro own) (auto split: prod.splits push_outcome.splits)
  next
    case (PushReply w d)
    with sender_ready [OF inv] assms(2) show ?thesis by (intro own) auto
  next
    case (PopLock cs)
    then show ?thesis
      by (intro own) (auto split: prod.splits pop_outcome.splits outcome.splits)
  next
    case (PopCancel w cs)
    then show ?thesis by (intro own) (auto split: prod.splits bool.splits)
  next
    case (PopPoll w cs)
    with polled_empty [OF inv, of t w cs] assms(2) show ?thesis by (intro own) auto
  next
    case (PopTake w cs)
    from taker_served [OF inv assms(2) [unfolded this]] consider "w < length (replies s)" "replies s ! w \<noteq> []"
      | u d where "runs s u (PushReply w d)" by blast
    then show ?thesis
    proof cases
      case 1
      with PopTake show ?thesis by (intro own) (auto simp: neq_Nil_conv)
    next
      case (2 u d)
      from sender_ready [OF inv 2] have "perform s (AStep u) \<noteq> None" by (simp add: lift(1) [OF 2] del: perform.simps)
      with 2 PopTake show ?thesis by (intro exI [of _ u]) (auto simp del: perform.simps)
    qed
  qed (rule own, use assms in fastforce)+
qed

lemma cancelled_call_can_move_witness:
  "\<exists>es s. execution sys_init step es s \<and> runs s 0 (PopPoll 0 [''a''])
    \<and> (\<exists>u e s'. perform s (AStep u) = Some (e, s') \<or> perform s (AAlt u) = Some (e, s'))"
proof -
  have "leads (sys_start 10 4 False) poll_run
      (\<lambda>es s. runs s 0 (PopPoll 0 [''a'']) \<and> ctx_of s 0 \<noteq> None)" by code_simp
  then obtain es s where "execution sys_init step es s"
    "runs s 0 (PopPoll 0 [''a'']) \<and> ctx_of s 0 \<noteq> None"
    by (rule leads_execution) auto
  with cancelled_call_can_move [of es s 0 "PopPoll 0 [''a'']"] show ?thesis by blast
qed

text \<open>
  Fact. The executable scheduler makes exactly the steps of the relation: a step is
  possible if and only if some action performs it, with the same label and the same next state.
\<close>

lemma scheduler_exact: "step s e s' \<longleftrightarrow> (\<exists>a. perform s a = Some (e, s'))"
  using perform_sound perform_complete by blast


text \<open>
  Property C14. The critical section of push, from any state within the invariant: the first
  registered waiter that names the channel gets the message and is removed; else the message is
  queued if the exact sum fits; else the broker is left as it is. No 64-bit addition wraps.
\<close>

theorem push_section_spec:
  assumes "broker_inv b" and "int (length p) \<le> maxBytes b"
  shows "pushLocked b c p =
    (case filter (\<lambda>w. c \<in> set (wChannels w)) (waiters b) of
       w # _ \<Rightarrow> (Handoff (wId w) \<lparr>dChannel = c, dPayload = p\<rparr>, b\<lparr>waiters := remove1 w (waiters b)\<rparr>)
     | [] \<Rightarrow>
         if queuedBytes b + int (length p) \<le> maxQueuedBytes b
         then (Enqueued, b\<lparr>queues := (queues b)(c \<mapsto> queueOf b c @ [p]),
                           queuedBytes := queuedBytes b + int (length p)\<rparr>)
         else (Full (drainSignal b) (queuedBytes b) (maxQueuedBytes b) (onBlock b), b))"
proof (cases "findWaiter 0 (waiters b) c")
  case None
  then have "filter (\<lambda>w. c \<in> set (wChannels w)) (waiters b) = []"
    by (auto simp: findWaiter_None filter_empty_conv)
  moreover have "i64 (queuedBytes b + i64 (int (length p))) = queuedBytes b + int (length p)"
    using assms by (intro sum_exact) (auto simp: broker_inv_def)
  ultimately show ?thesis using None by (simp add: pushLocked_def)
next
  case (Some iw)
  then obtain i w where f: "findWaiter 0 (waiters b) c = Some (i, w)" by (cases iw) auto
  from findWaiter_Some [OF this] obtain us vs where
    w: "waiters b = us @ w # vs" "i = length us" "c \<in> set (wChannels w)"
      "\<forall>u \<in> set us. c \<notin> set (wChannels u)" by auto
  then have "filter (\<lambda>w. c \<in> set (wChannels w)) us = []" "w \<notin> set us"
    by (auto simp: filter_empty_conv)
  with w f show ?thesis
    by (simp add: pushLocked_def removeWaiterAtLocked_def removeAt_split remove1_append)
qed

lemma push_section_spec_witness:
  "pushLocked (SetOnBlock (NewBroker 10 4) True) ''a'' [1, 2, 3, 4, 5]
     = (Full 0 0 4 True, SetOnBlock (NewBroker 10 4) True)"
  using push_section_spec [of "SetOnBlock (NewBroker 10 4) True" "[1, 2, 3, 4, 5]" "''a''"]
    broker_inv_New [of 10 4 True]
  by (simp add: SetOnBlock_def NewBroker_def)

text \<open>
  Property C15. The critical section of Pop, from any state within the invariant: the head of the
  first non-empty queue in the order of the arguments, with the counter, the emptied entry and a
  fresh drain signal; else the context's error; else a new waiter at the end of the list.
\<close>

theorem pop_section_spec:
  assumes "broker_inv b"
  shows "popLocked b cs ctxErr new =
    (case find (\<lambda>c. queueOf b c \<noteq> []) cs of
       Some c \<Rightarrow>
         (let p = hd (queueOf b c); rest = tl (queueOf b c) in
          Ret (PopGot \<lparr>dChannel = c, dPayload = p\<rparr>,
               b\<lparr>queues := (if rest = [] then (queues b)(c := None) else (queues b)(c \<mapsto> rest)),
                 queuedBytes := queuedBytes b - int (length p),
                 signals := (signals b)[drainSignal b := True] @ [False],
                 drainSignal := length (signals b)\<rparr>))
     | None \<Rightarrow>
         (case ctxErr of
            Some err \<Rightarrow> Ret (PopFailed (timeoutFromContext err), b)
          | None \<Rightarrow> Ret (PopParked new, b\<lparr>waiters := waiters b @ [\<lparr>wId = new, wChannels = cs\<rparr>]\<rparr>)))"
proof -
  have find: "find (\<lambda>c. queueOf b c \<noteq> []) xs
      = (case dropWhile (\<lambda>c. queueOf b c = []) xs of [] \<Rightarrow> None | x # _ \<Rightarrow> Some x)" for xs
    by (induction xs) auto
  show ?thesis
    unfolding popLocked_def popQueuedLocked_exact [OF assms] find
    by (cases "dropWhile (\<lambda>c. queueOf b c = []) cs") (simp_all add: after_take_def Let_def del: dropWhile_eq_Nil_conv)
qed

lemma pop_section_spec_witness:
  "popLocked (SetOnBlock (NewBroker 10 4) True) [''a''] (Some Canceled) 0
     = Ret (PopFailed ErrTimeout, SetOnBlock (NewBroker 10 4) True)"
  using pop_section_spec [of "SetOnBlock (NewBroker 10 4) True" "[''a'']" "Some Canceled" 0]
    broker_inv_New [of 10 4 True]
  by (simp add: SetOnBlock_def NewBroker_def queueOf_def timeoutFromContext_def)

text \<open>
  Fact. Any sequence of non-blocking pushes and pops on a new broker: on every channel,
  what was stored is what was handed out followed by what is left.
\<close>

lemma sequential_run_is_fifo:
  assumes "0 \<le> mb" and "0 \<le> mq" and "mq + mb < 2 ^ 63"
    and "run_store brokerPut brokerGet (NewBroker mb mq) ops = (ins, outs, b)"
  shows "on_key c ins = on_key c outs @ queueOf b c"
proof -
  have "broker_inv (NewBroker mb mq)"
    using broker_inv_New [OF assms(1-3), of False] by (simp add: SetOnBlock_def NewBroker_def)
  moreover have "queueOf (NewBroker mb mq) c = []" by (simp add: NewBroker_def queueOf_def)
  ultimately show ?thesis using store.fifo [OF _ assms(4), of c] by simp
qed

lemma sequential_run_is_fifo_witness:
  "\<exists>ins outs b. run_store brokerPut brokerGet (NewBroker 10 4)
       [Put ''a'' [1], Put ''b'' [2], Put ''a'' [3], Put ''a'' [4, 5], Get [''b'', ''a''], Get [''b'', ''a'']] = (ins, outs, b)
     \<and> on_key ''a'' ins = [[1], [3]] \<and> on_key ''a'' outs @ queueOf b ''a'' = [[1], [3]]"
proof -
  let ?ops = "[Put ''a'' [1], Put ''b'' [2], Put ''a'' [3], Put ''a'' [4, 5], Get [''b'', ''a''], Get [''b'', ''a'']]"
  obtain ins outs b where r: "run_store brokerPut brokerGet (NewBroker 10 4) ?ops = (ins, outs, b)"
    by (cases "run_store brokerPut brokerGet (NewBroker 10 4) ?ops") auto
  have "on_key ''a'' (fst (run_store brokerPut brokerGet (NewBroker 10 4) ?ops)) = [[1], [3]]"
    by code_simp
  with r sequential_run_is_fifo [of 10 4 ?ops ins outs b "''a''"] show ?thesis by simp
qed

end
