(* ===== verification/BrokerLaps.thy ===== *)
theory BrokerLaps
  imports BrokerSched
begin

text \<open>
  Every call of \<open>Push\<close> and \<open>Pop\<close> ends within a bounded number of its own segments, however the other
  goroutines run: a push goes round its loop again only after a pop has taken a message out of a
  queue, because only that closes the drain signal it waits on.
\<close>

section \<open>The segments of one call\<close>

definition control_of :: "sys \<Rightarrow> nat \<Rightarrow> control" where
  "control_of s t = at (threads s ! t)"

fun pops_of :: "event \<Rightarrow> nat" where
  "pops_of (Served _ _ _) = 1"
| "pops_of _ = 0"

text \<open>
  \<open>in_call t s m p\<close>: goroutine \<open>t\<close> has begun a call, and since then it has gone through \<open>m\<close> segments
  while pops took \<open>p\<close> messages out of queues.
\<close>

inductive in_call :: "nat \<Rightarrow> sys \<Rightarrow> nat \<Rightarrow> nat \<Rightarrow> bool" for t where
  called: "execution sys_init step es s \<Longrightarrow> runs s t Idle \<Longrightarrow> step s e s' \<Longrightarrow>
    control_of s' t \<noteq> Idle \<Longrightarrow> in_call t s' 0 0"
| goes_on: "in_call t s m p \<Longrightarrow> control_of s t \<noteq> Idle \<Longrightarrow> step s e s' \<Longrightarrow>
    in_call t s' (if control_of s' t = control_of s t then m else m + 1) (p + pops_of e)"

text \<open>The segments a call has before it at most, when no more messages are taken out.\<close>

fun rank :: "broker \<Rightarrow> control \<Rightarrow> nat" where
  "rank b Idle = 0"
| "rank b (PushLock c p) = 4"
| "rank b (PushReply w d) = 2"
| "rank b (PushNotify c p sig q m) = (if sig = drainSignal b then 3 else 6)"
| "rank b (PushWait c p sig) = (if sig = drainSignal b then 2 else 5)"
| "rank b (PushRet res) = 1"
| "rank b (PopLock cs) = 5"
| "rank b (PopWait w cs) = 4"
| "rank b (PopCancel w cs) = 3"
| "rank b (PopTake w cs) = 2"
| "rank b (PopPoll w cs) = 2"
| "rank b (PopRet res) = 1"

lemma popLocked_drain:
  "popLocked b cs cx new = Ret (PopFailed err, b') \<Longrightarrow> drainSignal b' = drainSignal b"
  "popLocked b cs cx new = Ret (PopParked w, b') \<Longrightarrow> drainSignal b' = drainSignal b"
proof -
  have "popQueuedLocked b cs = Ret (None, b1) \<Longrightarrow> b1 = b" for b1
    by (induction cs) (auto simp: Let_def split: list.splits option.splits)
  then show "popLocked b cs cx new = Ret (PopFailed err, b') \<Longrightarrow> drainSignal b' = drainSignal b"
    "popLocked b cs cx new = Ret (PopParked w, b') \<Longrightarrow> drainSignal b' = drainSignal b"
    by (auto simp: popLocked_def split: outcome.splits option.splits prod.splits)
qed

lemma pushLocked_drain: "pushLocked b c p = (res, b') \<Longrightarrow> drainSignal b' = drainSignal b"
  by (auto simp: pushLocked_def Let_def removeWaiterAtLocked_def split: option.splits if_splits)

lemma pushLocked_sig: "pushLocked b c p = (Full sig q m n, b') \<Longrightarrow> sig = drainSignal b'"
  by (auto simp: pushLocked_def Let_def split: option.splits if_splits)

lemma remove_drain: "removeWaiterLocked b w = (ok, b') \<Longrightarrow> drainSignal b' = drainSignal b"
  by (auto simp: removeWaiterLocked_def removeWaiterAtLocked_def split: option.splits)

text \<open>Only taking a message out of a queue replaces the drain signal.\<close>

lemma step_drain: "step s e s' \<Longrightarrow> pops_of e = 0 \<Longrightarrow> drainSignal (brk s') = drainSignal (brk s)"
  by (induction rule: step.induct) (auto dest: popLocked_drain pushLocked_drain remove_drain)

lemma rank_other:
  assumes "step s e s'"
  shows "rank (brk s') c \<le> rank (brk s) c + 3 * pops_of e"
proof (cases "pops_of e = 0")
  case True
  then have "rank (brk s') c = rank (brk s) c"
    using step_drain [OF assms] by (cases c) simp_all
  then show ?thesis by simp
next
  case False
  then have "pops_of e = 1" by (cases e) simp_all
  then show ?thesis by (cases c) simp_all
qed

lemma open_is_current: "sys_inv s \<Longrightarrow> sig < length (signals (brk s)) \<Longrightarrow> signals (brk s) ! sig \<Longrightarrow> sig \<noteq> drainSignal (brk s)"
  by (auto simp: sys_inv_def broker_inv_def signals_ok_def)

text \<open>A move of the call itself uses up one segment; a step of another goroutine none.\<close>

lemma step_rank:
  assumes st: "step s e s'" and inv: "sys_inv s" and t: "t < length (threads s)" "control_of s t \<noteq> Idle"
  shows "rank (brk s') (control_of s' t) + (if control_of s' t = control_of s t then 0 else 1)
    \<le> rank (brk s) (control_of s t) + 3 * pops_of e"
proof (cases "control_of s' t = control_of s t")
  case True
  then show ?thesis using rank_other [OF st] by simp
next
  case False
  with st show ?thesis
  proof cases
    case (push_drained u c p sig)
    with False t open_is_current [OF inv push_drained(4,5)] show ?thesis
      by (auto simp: runs_def control_of_def goto_def nth_list_update split: if_splits)
  qed (use t False in \<open>auto simp: runs_def nth_append nth_list_update control_of_def goto_def split: if_splits
        dest: pushLocked_sig pushLocked_drain popLocked_drain remove_drain\<close>)
qed

lemma in_call_reachable: "in_call t s m p \<Longrightarrow> (\<exists>es. execution sys_init step es s) \<and> t < length (threads s)"
proof (induction rule: in_call.induct)
  case (called es s e s')
  have "length (threads s) \<le> length (threads s')" using called(3) by cases (simp_all add: goto_def)
  with called show ?case by (auto simp: runs_def intro: exec_step)
next
  case (goes_on s m p e s')
  have "length (threads s) \<le> length (threads s')" using goes_on(3) by cases (simp_all add: goto_def)
  with goes_on show ?case by (auto intro: exec_step)
qed

lemma rank_entered:
  assumes "step s e s'" and "runs s t Idle" and "control_of s' t \<noteq> Idle"
  shows "rank (brk s') (control_of s' t) \<le> 5"
  using assms(1)
  by cases (use assms(2,3) in \<open>auto simp: runs_def control_of_def goto_def nth_append nth_list_update
      pushEnter_def popEnter_def split: if_splits option.splits\<close>)

lemma in_call_rank: "in_call t s m p \<Longrightarrow> m + rank (brk s) (control_of s t) \<le> 5 + 3 * p"
proof (induction rule: in_call.induct)
  case (called es s e s')
  then show ?case using rank_entered by simp
next
  case (goes_on s m p e s')
  then obtain es where "execution sys_init step es s" "t < length (threads s)"
    using in_call_reachable by blast
  with step_rank [OF goes_on(3) sys.always _ goes_on(2)] goes_on(4) show ?case by fastforce
qed


section \<open>A push that goes round its loop\<close>

fun counted :: "nat \<Rightarrow> sys \<Rightarrow> nat \<Rightarrow> nat \<Rightarrow> action list \<Rightarrow> (sys \<times> nat \<times> nat) option" where
  "counted t s m p [] = Some (s, m, p)"
| "counted t s m p (a # as) =
     (if control_of s t = Idle then None
      else case perform s a of
             None \<Rightarrow> None
           | Some (e, s') \<Rightarrow>
               counted t s' (if control_of s' t = control_of s t then m else m + 1) (p + pops_of e) as)"

lemma counted_in_call: "counted t s m p as = Some (s', m', p') \<Longrightarrow> in_call t s m p \<Longrightarrow> in_call t s' m' p'"
proof (induction as arbitrary: s m p)
  case Nil
  then show ?case by simp
next
  case (Cons a as)
  then obtain e s1 where "perform s a = Some (e, s1)" "control_of s t \<noteq> Idle"
    "counted t s1 (if control_of s1 t = control_of s t then m else m + 1) (p + pops_of e) as = Some (s', m', p')"
    by (auto split: if_splits option.splits)
  with Cons.IH [OF _ goes_on [OF Cons.prems(2) _ perform_sound]] show ?case by blast
qed

text \<open>
  Goroutine 0 has filled the queue; it pushes again and waits, goroutine 1 pops, and the push goes
  round, queues its message and returns.
\<close>

definition filled_run :: "action list" where
  "filled_run = [ASpawn, ASpawn, APush 0 ''a'' [1, 2, 3] None, AStep 0, AStep 0]"

definition one_lap :: "action list" where
  "one_lap = [AStep 0, APop 1 [''a''] None, AStep 1, AStep 0, AStep 0, AStep 0]"

definition lap_counts :: "(nat \<times> nat) option" where
  "lap_counts =
     (case perform_all (sys_start 10 4 False) filled_run of
        None \<Rightarrow> None
      | Some (es, s) \<Rightarrow>
          if runs s 0 Idle then
            (case perform s (APush 0 ''b'' [4, 5] None) of
               None \<Rightarrow> None
             | Some (e, s1) \<Rightarrow>
                 if control_of s1 0 = Idle then None
                 else map_option (\<lambda>(s2, m, p). (m, p)) (counted 0 s1 0 0 one_lap))
          else None)"


end
