(* ===== verification/Server.thy ===== *)
theory Server
  imports Protocol BrokerSched
begin

text \<open>
  The daemon (\<open>serve\<close>, \<open>handleConn\<close> and \<open>timeoutContext\<close>): one handler per connection, which reads a
  request, calls the broker and writes the response, over the concurrent broker, whose goroutine
  \<open>i\<close> is the handler of connection \<open>i\<close>. The parameter \<open>q\<close> is the quoting of \<open>%q\<close>.
\<close>

section \<open>A handler's decisions\<close>

definition millisecond :: int where
  "millisecond = 1000000"

text \<open>\<open>time.Duration(req.TimeoutMS) * time.Millisecond\<close>.\<close>

definition popTimeout :: "int \<Rightarrow> int" where
  "popTimeout timeoutMS = i64 (timeoutMS * millisecond)"

text \<open>The deadline of the context, if it has one.\<close>

definition timeoutContext :: "int \<Rightarrow> int option" where
  "timeoutContext timeout = (if timeout \<le> 0 then None else Some timeout)"

text \<open>What the handler does with the result of \<open>readRequest\<close>.\<close>

datatype decision =
    Hangup
  | Refuse response
  | CallPush string bytes
  | CallPop "string list" "int option"

definition errorResponse :: "string \<Rightarrow> response" where
  "errorResponse text = emptyResponse\<lparr>respError := text\<rparr>"

definition handleRequest :: "(string \<Rightarrow> string) \<Rightarrow> goerr + request \<Rightarrow> decision" where
  "handleRequest q res =
     (case res of
        Inl err \<Rightarrow>
          if go_is err EOF then Hangup
          else Refuse (errorResponse (''decode request: '' @ error_text q err))
      | Inr req \<Rightarrow>
          if reqOp req = ''push'' then
            if length (reqChannels req) \<noteq> 1
            then Refuse (errorResponse ''push requires exactly one channel'')
            else CallPush (reqChannels req ! 0) (reqPayload req)
          else if reqOp req = ''pop'' then
            CallPop (reqChannels req) (timeoutContext (popTimeout (reqTimeoutMS req)))
          else Refuse (errorResponse (''unknown op '' @ q (reqOp req))))"

text \<open>The response to a finished call, and whether the handler goes on if it is written.\<close>

definition pushResponse :: "(string \<Rightarrow> string) \<Rightarrow> goerr option \<Rightarrow> response" where
  "pushResponse q res =
     (case res of
        Some err \<Rightarrow> errorResponse (error_text q err)
      | None \<Rightarrow> emptyResponse\<lparr>respOK := True\<rparr>)"

definition popResponse :: "(string \<Rightarrow> string) \<Rightarrow> goerr + delivery \<Rightarrow> response" where
  "popResponse q res =
     (case res of
        Inl err \<Rightarrow> errorResponse (error_text q err)
      | Inr msg \<Rightarrow>
          emptyResponse\<lparr>respOK := True, respChannel := dChannel msg, respPayload := dPayload msg\<rparr>)"

section \<open>Connections and the daemon\<close>

datatype handler =
    HRead
  | HPush string bytes
  | HPop "string list" "int option"
  | HDone

text \<open>
  \<open>cin\<close> is what the peer will ever send, \<open>gone\<close> whether the connection's context is cancelled,
  \<open>watched\<close> whether the watcher still holds the connection's cancel function.
\<close>

record conn =
  cin :: reader
  cout :: writer
  hnd :: handler
  watched :: bool
  gone :: bool

text \<open>\<open>serve\<close>: accepting, signalled, listener closed, returned (with the exit code of \<open>runServe\<close>).\<close>

datatype phase = Accepting | Signalled | ListenerClosed | Exited int

record daemon =
  dsys :: sys
  conns :: "conn list"
  phase :: phase

definition daemon_start :: "int \<Rightarrow> daemon" where
  "daemon_start maxQ =
     \<lparr>dsys = sys_start defaultMaxBytes maxQ True, conns = [], phase = Accepting\<rparr>"

definition alive :: "daemon \<Rightarrow> bool" where
  "alive d \<longleftrightarrow> (case phase d of Exited _ \<Rightarrow> False | _ \<Rightarrow> \<not> crashed (dsys d))"

definition listening :: "daemon \<Rightarrow> bool" where
  "listening d \<longleftrightarrow> alive d \<and> phase d \<noteq> ListenerClosed"

definition handles :: "daemon \<Rightarrow> nat \<Rightarrow> handler \<Rightarrow> bool" where
  "handles d i h \<longleftrightarrow> alive d \<and> i < length (conns d) \<and> hnd (conns d ! i) = h"

text \<open>The handler returns: its deferred calls unregister, close the connection and cancel.\<close>

definition finish :: "conn \<Rightarrow> conn" where
  "finish c = c\<lparr>hnd := HDone, watched := False, gone := True\<rparr>"

definition set_conn :: "daemon \<Rightarrow> nat \<Rightarrow> conn \<Rightarrow> daemon" where
  "set_conn d i c = d\<lparr>conns := (conns d)[i := c]\<rparr>"

definition set_thread :: "daemon \<Rightarrow> nat \<Rightarrow> thread \<Rightarrow> daemon" where
  "set_thread d i th = d\<lparr>dsys := (dsys d)\<lparr>threads := (threads (dsys d))[i := th]\<rparr>\<rparr>"

text \<open>A context keeps its first error.\<close>

definition cancelWith :: "goerr \<Rightarrow> thread \<Rightarrow> thread" where
  "cancelWith err th = th\<lparr>ctx := (case ctx th of None \<Rightarrow> Some err | Some e \<Rightarrow> Some e)\<rparr>"

datatype devent =
    Quiet
  | InBroker event
  | Answered nat handler response
  | Dropped nat handler response

text \<open>One iteration of the loop of \<open>handleConn\<close> up to the call of the broker.\<close>

definition receive :: "(string \<Rightarrow> string) \<Rightarrow> daemon \<Rightarrow> nat \<Rightarrow> devent \<times> daemon" where
  "receive q d i =
     (let c = conns d ! i;
          (res, r) = readRequest (cin c);
          c1 = c\<lparr>cin := r\<rparr>
      in case handleRequest q res of
           Hangup \<Rightarrow> (Quiet, set_conn d i (finish c1))
         | Refuse resp \<Rightarrow>
             (case writeResponse resp (cout c1) of
                (None, w) \<Rightarrow> (Answered i HRead resp, set_conn d i (finish (c1\<lparr>cout := w\<rparr>)))
              | (Some _, w) \<Rightarrow> (Dropped i HRead resp, set_conn d i (finish (c1\<lparr>cout := w\<rparr>))))
         | CallPush channel payload \<Rightarrow>
             (Quiet, set_thread (set_conn d i (c1\<lparr>hnd := HPush channel payload\<rparr>)) i
                \<lparr>at = pushEnter (brk (dsys d)) channel payload,
                 ctx = (if gone c1 then Some Canceled else None)\<rparr>)
         | CallPop channels deadline \<Rightarrow>
             (Quiet, set_thread (set_conn d i (c1\<lparr>hnd := HPop channels deadline\<rparr>)) i
                \<lparr>at = popEnter channels, ctx = None\<rparr>))"

text \<open>The rest of the iteration: write the response, go on or return.\<close>

definition respond :: "daemon \<Rightarrow> nat \<Rightarrow> bool \<Rightarrow> response \<Rightarrow> devent \<times> daemon" where
  "respond d i ok resp =
     (let c = conns d ! i;
          d1 = d\<lparr>dsys := goto (dsys d) i Idle\<rparr>
      in case writeResponse resp (cout c) of
           (None, w) \<Rightarrow>
             (Answered i (hnd c) resp,
              set_conn d1 i (if ok then c\<lparr>cout := w, hnd := HRead\<rparr> else finish (c\<lparr>cout := w\<rparr>)))
         | (Some _, w) \<Rightarrow> (Dropped i (hnd c) resp, set_conn d1 i (finish (c\<lparr>cout := w\<rparr>))))"

text \<open>Inside a call, where the broker's steps are the handler's steps.\<close>

fun inside :: "control \<Rightarrow> bool" where
  "inside Idle = False"
| "inside (PushRet res) = False"
| "inside (PopRet res) = False"
| "inside _ = True"

text \<open>The context of the connection is cancelled; a push under way sees it.\<close>

definition cancelConn :: "daemon \<Rightarrow> nat \<Rightarrow> bool \<Rightarrow> daemon" where
  "cancelConn d i w =
     (let c = conns d ! i; d1 = set_conn d i (c\<lparr>gone := True, watched := w\<rparr>)
      in case hnd c of
           HPush _ _ \<Rightarrow> set_thread d1 i (cancelWith Canceled (threads (dsys d) ! i))
         | _ \<Rightarrow> d1)"

inductive dstep :: "(string \<Rightarrow> string) \<Rightarrow> daemon \<Rightarrow> devent \<Rightarrow> daemon \<Rightarrow> bool" for q where
  accept: "listening d \<Longrightarrow>
    dstep q d Quiet (d\<lparr>dsys := (dsys d)\<lparr>threads := threads (dsys d) @ [\<lparr>at = Idle, ctx = None\<rparr>]\<rparr>,
      conns := conns d @ [\<lparr>cin = r, cout = newWriter None, hnd = HRead, watched = w,
                           gone = (phase d \<noteq> Accepting)\<rparr>]\<rparr>)"
| request: "handles d i HRead \<Longrightarrow> receive q d i = (e, d') \<Longrightarrow> dstep q d e d'"
| in_call: "alive d \<Longrightarrow> i < length (conns d) \<Longrightarrow> runs (dsys d) i c \<Longrightarrow> inside c \<Longrightarrow>
    perform_step (dsys d) i c = Some (e, s) \<or> perform_alt (dsys d) i c = Some (e, s) \<Longrightarrow>
    dstep q d (InBroker e) (d\<lparr>dsys := s\<rparr>)"
| push_returns: "handles d i (HPush channel payload) \<Longrightarrow> runs (dsys d) i (PushRet res) \<Longrightarrow>
    respond d i (res = None) (pushResponse q res) = (e, d') \<Longrightarrow> dstep q d e d'"
| pop_returns: "handles d i (HPop channels deadline) \<Longrightarrow> runs (dsys d) i (PopRet res) \<Longrightarrow>
    respond d i (\<not> isl res) (popResponse q res) = (e, d') \<Longrightarrow> dstep q d e d'"
| deadline: "handles d i (HPop channels (Some t)) \<Longrightarrow>
    dstep q d Quiet (set_thread d i (cancelWith DeadlineExceeded (threads (dsys d) ! i)))"
| peer_closed: "alive d \<Longrightarrow> i < length (conns d) \<Longrightarrow> watched (conns d ! i) \<Longrightarrow>
    dstep q d Quiet (cancelConn d i False)"
| server_done: "alive d \<Longrightarrow> i < length (conns d) \<Longrightarrow> phase d \<noteq> Accepting \<Longrightarrow>
    dstep q d Quiet (cancelConn d i (watched (conns d ! i)))"
| broken: "alive d \<Longrightarrow> i < length (conns d) \<Longrightarrow>
    dstep q d Quiet (set_conn d i
      ((conns d ! i)\<lparr>cout := (cout (conns d ! i))\<lparr>conn_err := Some err\<rparr>\<rparr>))"
| signal: "alive d \<Longrightarrow> phase d = Accepting \<Longrightarrow> dstep q d Quiet (d\<lparr>phase := Signalled\<rparr>)"
| close_listener: "alive d \<Longrightarrow> phase d = Signalled \<Longrightarrow> dstep q d Quiet (d\<lparr>phase := ListenerClosed\<rparr>)"
| accept_closed: "alive d \<Longrightarrow> phase d = ListenerClosed \<Longrightarrow> dstep q d Quiet (d\<lparr>phase := Exited 0\<rparr>)"
| accept_error: "listening d \<Longrightarrow> dstep q d Quiet (d\<lparr>phase := Exited 1\<rparr>)"

text \<open>
  The start states: the limits \<open>parseServeArgs\<close> can produce.
\<close>

definition daemon_init :: "daemon \<Rightarrow> bool" where
  "daemon_init d \<longleftrightarrow> (\<exists>maxQ. 0 \<le> maxQ \<and> maxQ + defaultMaxBytes < 2 ^ 63 \<and> d = daemon_start maxQ)"

end
