(* ===== verification/ServerInv.thy ===== *)
theory ServerInv
  imports Server
begin

text \<open>
  The daemon implements the concurrent broker: every step of the daemon is a step of the broker or
  leaves it as it is (the simulation), the handler of a connection and its goroutine agree on the
  call under way, and the bytes on every connection are the frames of the answers given on it.
\<close>

section \<open>Writing a response, whatever the connection does\<close>

text \<open>On a broken connection nothing is sent, and a success only fills the buffer.\<close>

definition stalls :: "wr \<Rightarrow> bytes \<Rightarrow> bool" where
  "stalls m bs \<longleftrightarrow>
     (\<forall>w e r w'. conn_err w = Some e \<longrightarrow> m w = (r, w') \<longrightarrow>
        sent w' = sent w \<and> conn_err w' = Some e \<and> (r = None \<longrightarrow> pending w' = pending w @ bs))"

lemma stallsD:
  assumes "stalls m bs" and "conn_err w = Some e" and "m w = (r, w')"
  shows "sent w' = sent w" and "conn_err w' = Some e" and "r = None \<Longrightarrow> pending w' = pending w @ bs"
  using assms unfolding stalls_def by blast+

lemma stalls_bwPut: "stalls (bwPut direct p) p"
  unfolding stalls_def
  by (auto simp: bwPut.simps [of direct p] Let_def split: option.splits if_splits)

lemma stalls_seq:
  assumes m: "stalls m bs" and k: "stalls k cs"
  shows "stalls (wr_seq m k) (bs @ cs)"
  unfolding stalls_def
proof (intro allI impI)
  fix w e r w'
  assume e: "conn_err w = Some e" and run: "wr_seq m k w = (r, w')"
  obtain r1 w1 where w1: "m w = (r1, w1)" by (cases "m w") auto
  note d = stallsD [OF m e w1]
  show "sent w' = sent w \<and> conn_err w' = Some e \<and> (r = None \<longrightarrow> pending w' = pending w @ bs @ cs)"
  proof (cases r1)
    case None
    with run w1 have "k w1 = (r, w')" by (simp add: wr_seq_def)
    from stallsD [OF k d(2) this] d(1) d(3) [OF None] show ?thesis by simp
  next
    case (Some x)
    with run w1 have "r = Some x" "w' = w1" by (simp_all add: wr_seq_def)
    with d(1,2) show ?thesis by simp
  qed
qed

lemma stalls_fail: "stalls (wr_fail e) bs"
  by (simp add: stalls_def wr_fail_def)

lemma stalls_wires:
  "stalls (bwWriteByte b) [b]"
  "stalls (writeBytes32 v) (put_be 4 (unat (word_of_nat (length v) :: 32 word)) @ v)"
  "stalls (writeString32 s) (put_be 4 (unat (word_of_nat (length s) :: 32 word)) @ to_bytes s)"
  by (auto simp: bwWriteByte_def writeBytes32_def writeString32_def writeUint32_def bwWrite_def
      bwWriteString_def intro!: stalls_seq stalls_bwPut)

lemma stalls_writeString16: "\<exists>bs. stalls (writeString16 s) bs"
  unfolding writeString16_def writeUint16_def bwWrite_def bwWriteString_def
  by (cases "65535 < length s") (auto intro: stalls_seq stalls_bwPut stalls_fail exI)

lemma writeResponse_broken:
  assumes "conn_err w = Some e" and "sticky w = None" and "writeResponse resp w = (r, w')"
  shows "r \<noteq> None \<and> sent w' = sent w"
proof (cases "valid_response resp")
  case False
  then show ?thesis using assms(3)
    by (auto simp: writeResponse_def valid_response_def wr_fail_def Let_def split: if_splits)
next
  case True
  obtain bs where "stalls (writeString16 (respChannel resp)) bs" using stalls_writeString16 by blast
  then obtain m b bs' where m: "writeResponse resp = wr_seq m bwFlush" and s: "stalls m (b # bs')"
    using True stalls_seq [OF stalls_wires(1) stalls_seq [OF _ stalls_seq [OF stalls_wires(2,3)]]]
    by (fastforce simp: writeResponse_def valid_response_def Let_def)
  obtain r1 w1 where w1: "m w = (r1, w1)" by (cases "m w") auto
  note d = stallsD [OF s assms(1) w1]
  show ?thesis
  proof (cases r1)
    case (Some x)
    with assms(3) m w1 have "r = Some x" "w' = w1" by (simp_all add: wr_seq_def)
    with d(1) show ?thesis by simp
  next
    case None
    with assms(3) m w1 have "bwFlush w1 = (r, w')" by (simp add: wr_seq_def)
    have "pending w1 \<noteq> []" "conn_err w1 = Some e" "sent w1 = sent w" using d None by auto
    then have "fst (bwFlush w1) \<noteq> None \<and> sent (snd (bwFlush w1)) = sent w"
      by (cases "sticky w1") (simp_all add: bwFlush_def)
    with \<open>bwFlush w1 = (r, w')\<close> show ?thesis by simp
  qed
qed

lemma writeResponse_cases:
  assumes "pending w = []" and "sticky w = None"
  obtains (sent) w' where "writeResponse resp w = (None, w')" and "valid_response resp"
      and "pending w' = []" and "sticky w' = None" and "sent w' = sent w @ response_frame resp"
  | (failed) e w' where "writeResponse resp w = (Some e, w')" and "sent w' = sent w"
proof (cases "conn_err w")
  case (Some e)
  obtain r w' where "writeResponse resp w = (r, w')" by (cases "writeResponse resp w") auto
  with writeResponse_broken [OF Some assms(2)] failed show thesis by (cases r) auto
next
  case None
  show thesis
  proof (cases "valid_response resp")
    case True
    from writeResponse_delivers [OF True] None assms sent [OF _ True] show thesis
      by (auto simp: delivers_def healthy_def written_def)
  next
    case False
    obtain r w' where run: "writeResponse resp w = (r, w')" by (cases "writeResponse resp w") auto
    with False have "r \<noteq> None \<and> sent w' = sent w"
      by (auto simp: writeResponse_def valid_response_def wr_fail_def Let_def split: if_splits)
    with run failed show thesis by (cases r) auto
  qed
qed

section \<open>Handlers and goroutines\<close>

fun serves :: "handler \<Rightarrow> control \<Rightarrow> bool" where
  "serves (HPush c p) (PushLock c' p') = (c' = c \<and> p' = p)"
| "serves (HPush c p) (PushReply w d) = (dChannel d = c \<and> dPayload d = p)"
| "serves (HPush c p) (PushNotify c' p' sig qd m) = (c' = c \<and> p' = p)"
| "serves (HPush c p) (PushWait c' p' sig) = (c' = c \<and> p' = p)"
| "serves (HPush c p) (PushRet res) = True"
| "serves (HPop cs dl) (PopLock cs') = (cs' = cs)"
| "serves (HPop cs dl) (PopWait w cs') = (cs' = cs)"
| "serves (HPop cs dl) (PopCancel w cs') = (cs' = cs)"
| "serves (HPop cs dl) (PopTake w cs') = (cs' = cs)"
| "serves (HPop cs dl) (PopPoll w cs') = (cs' = cs)"
| "serves (HPop cs dl) (PopRet res) = (case res of Inl err \<Rightarrow> True | Inr d \<Rightarrow> dChannel d \<in> set cs)"
| "serves HRead c = (c = Idle)"
| "serves HDone c = (c = Idle)"
| "serves _ _ = False"

text \<open>The errors a call's context can have.\<close>

fun ctx_fits :: "handler \<Rightarrow> goerr option \<Rightarrow> bool" where
  "ctx_fits (HPush c p) x = (x = None \<or> x = Some Canceled)"
| "ctx_fits (HPop cs None) x = (x = None)"
| "ctx_fits (HPop cs (Some t)) x = (x = None \<or> x = Some DeadlineExceeded)"
| "ctx_fits _ x = True"

definition fits :: "conn \<Rightarrow> thread \<Rightarrow> bool" where
  "fits c th \<longleftrightarrow> serves (hnd c) (at th) \<and> ctx_fits (hnd c) (ctx th)"

definition agree :: "daemon \<Rightarrow> bool" where
  "agree d \<longleftrightarrow>
     length (threads (dsys d)) = length (conns d)
     \<and> (\<forall>i < length (conns d). fits (conns d ! i) (threads (dsys d) ! i))"

lemma agree_update:
  assumes "agree d" and "i < length (conns d)"
    and "conns d' = (conns d)[i := c]" and "threads (dsys d') = (threads (dsys d))[i := th]"
    and "fits c th"
  shows "agree d'"
  using assms by (auto simp: agree_def nth_list_update)

lemma serves_enter: "serves (HPush c p) (pushEnter b c p)" "serves (HPop cs dl) (popEnter cs)"
  by (simp_all add: pushEnter_def popEnter_def split: option.splits)

text \<open>A step inside a call moves one goroutine, keeps its context and the call it is in.\<close>

lemma performs_moves:
  assumes perf: "perform_step s t c = Some (e, s') \<or> perform_alt s t c = Some (e, s')"
    and run: "runs s t c" and inv: "sys_inv s" and srv: "serves h c" and ins: "inside c"
  shows "\<exists>c'. threads s' = (threads s)[t := (threads s ! t)\<lparr>at := c'\<rparr>] \<and> serves h c'"
proof -
  have st: "step s e s'"
    using perf run perform_step_sound perform_alt_sound by blast
  then have nc: "\<not> crashed s'" using step_broker [OF _ inv] by blast
  have b: "broker_inv (brk s)" using inv by (simp add: sys_inv_def)
  note got = popLocked_got [OF b]
  show ?thesis
  proof (cases c)
    case (PushLock ch p)
    then show ?thesis using perf srv
      by (cases h) (auto simp: goto_def dest!: pushLocked_Handoff split: prod.splits push_outcome.splits if_splits)
  next
    case (PopLock cs)
    then show ?thesis using perf srv nc
      by (cases h) (auto simp: goto_def dest!: got split: prod.splits pop_outcome.splits outcome.splits)
  next
    case (PopWait w cs)
    with run waiting_pop_matches [OF inv, of t c w cs] perf srv show ?thesis
      by (cases h) (auto simp: goto_def split: if_splits list.splits)
  next
    case (PopTake w cs)
    with run waiting_pop_matches [OF inv, of t c w cs] perf srv show ?thesis
      by (cases h) (auto simp: goto_def split: if_splits list.splits)
  next
    case (PopPoll w cs)
    with run polled_empty [OF inv, of t w cs] perf srv show ?thesis
      by (cases h) (auto simp: goto_def split: if_splits list.splits option.splits)
  next
    case (PopCancel w cs)
    then show ?thesis using perf srv
      by (cases h) (auto simp: goto_def split: prod.splits bool.splits)
  qed (use perf srv ins in \<open>cases h; auto simp: goto_def split: if_splits option.splits\<close>)+
qed

section \<open>The simulation\<close>

text \<open>The broker's part of the daemon's history.\<close>

fun in_broker :: "devent \<Rightarrow> event list" where
  "in_broker (InBroker e) = [e]"
| "in_broker _ = []"

definition broker_log :: "devent list \<Rightarrow> event list" where
  "broker_log es = concat (map in_broker es)"

lemma broker_log_simps [simp]: "broker_log [] = []" "broker_log (es @ [e]) = broker_log es @ in_broker e"
  by (simp_all add: broker_log_def)

definition audible :: "event list \<Rightarrow> event list" where
  "audible es = filter (\<lambda>e. e \<noteq> Tau) es"

lemma audible_simps [simp]: "audible [] = []" "audible (xs @ ys) = audible xs @ audible ys"
  "audible [e] = (if e = Tau then [] else [e])"
  by (simp_all add: audible_def)

definition simulated :: "devent list \<Rightarrow> daemon \<Rightarrow> bool" where
  "simulated es d \<longleftrightarrow>
     (\<exists>bs. execution sys_init step bs (dsys d) \<and> audible bs = audible (broker_log es))"

lemma simulated_inv: "simulated es d \<Longrightarrow> sys_inv (dsys d)"
  using sys.always by (auto simp: simulated_def)

lemma simulated_stutter:
  "simulated es d \<Longrightarrow> dsys d' = dsys d \<Longrightarrow> audible (in_broker e) = [] \<Longrightarrow> simulated (es @ [e]) d'"
  by (auto simp: simulated_def)

lemma simulated_move:
  assumes "simulated es d" and "step (dsys d) b (dsys d')" and "audible (in_broker e) = audible [b]"
  shows "simulated (es @ [e]) d'"
proof -
  from assms(1) obtain bs where bs: "execution sys_init step bs (dsys d)"
    "audible bs = audible (broker_log es)" by (auto simp: simulated_def)
  from exec_step [OF bs(1) assms(2)] have "execution sys_init step (bs @ [b]) (dsys d')" .
  moreover have "audible (bs @ [b]) = audible (broker_log (es @ [e]))" using bs(2) assms(3) by simp
  ultimately show ?thesis unfolding simulated_def by blast
qed

lemma alive_runs:
  assumes "alive d" and "agree d" and "i < length (conns d)"
  shows "runs (dsys d) i (at (threads (dsys d) ! i))"
  using assms by (auto simp: alive_def agree_def runs_def split: phase.splits)

lemma handles_idle:
  assumes "handles d i h" and "agree d" and "h = HRead \<or> h = HDone"
  shows "runs (dsys d) i Idle"
proof -
  have "at (threads (dsys d) ! i) = Idle"
    using assms by (auto simp: handles_def agree_def fits_def)
  with alive_runs [of d i] assms show ?thesis by (simp add: handles_def)
qed

text \<open>Cancelling a context is the broker's \<open>ctx_done\<close>, or nothing when it is cancelled already.\<close>

lemma cancel_simulated:
  assumes sim: "simulated es d" and run: "runs (dsys d) i c" and err: "err = Canceled \<or> err = DeadlineExceeded"
    and d': "dsys d' = (dsys d)\<lparr>threads := (threads (dsys d))[i := cancelWith err (threads (dsys d) ! i)]\<rparr>"
  shows "simulated (es @ [Quiet]) d'"
proof (cases "ctx_of (dsys d) i")
  case None
  then have "cancelWith err (threads (dsys d) ! i) = (threads (dsys d) ! i)\<lparr>ctx := Some err\<rparr>"
    by (simp add: cancelWith_def ctx_of_def)
  with ctx_done [OF run None err] d' have "step (dsys d) Tau (dsys d')" by simp
  from simulated_move [OF sim this] show ?thesis by simp
next
  case (Some e)
  then have "cancelWith err (threads (dsys d) ! i) = threads (dsys d) ! i"
    by (simp add: cancelWith_def ctx_of_def)
  with d' have "dsys d' = dsys d" by simp
  from simulated_stutter [OF sim this] show ?thesis by simp
qed

lemma respond_dsys: "respond d i ok resp = (e, d') \<Longrightarrow> dsys d' = goto (dsys d) i Idle \<and> in_broker e = []"
  by (auto simp: respond_def set_conn_def Let_def split: prod.splits option.splits)

lemma receive_cases:
  assumes "receive q d i = (e, d')"
  obtains (ended) c resp r w where "conns d' = (conns d)[i := c]" and "dsys d' = dsys d" and "phase d' = phase d"
      and "hnd c = HDone" and "writeResponse resp (cout (conns d ! i)) = (r, w)" and "\<not> respOK resp"
      and "e = Quiet \<and> cout c = cout (conns d ! i)
        \<or> e = (if r = None then Answered i HRead resp else Dropped i HRead resp) \<and> cout c = w"
  | (push) c ch p x where "conns d' = (conns d)[i := c]" and "hnd c = HPush ch p" and "e = Quiet"
      and "cout c = cout (conns d ! i)" and "phase d' = phase d" and "x = None \<or> x = Some Canceled"
      and "dsys d' = (dsys d)\<lparr>threads := (threads (dsys d))[i := \<lparr>at = pushEnter (brk (dsys d)) ch p, ctx = x\<rparr>]\<rparr>"
  | (pop) c cs dl where "conns d' = (conns d)[i := c]" and "hnd c = HPop cs dl" and "e = Quiet"
      and "cout c = cout (conns d ! i)" and "phase d' = phase d"
      and "dsys d' = (dsys d)\<lparr>threads := (threads (dsys d))[i := \<lparr>at = popEnter cs, ctx = None\<rparr>]\<rparr>"
proof -
  obtain res r where rd: "readRequest (cin (conns d ! i)) = (res, r)"
    by (cases "readRequest (cin (conns d ! i))") auto
  note def = receive_def rd Let_def set_conn_def set_thread_def finish_def
  show thesis
  proof (cases "handleRequest q res")
    case Hangup
    obtain err w where wr: "writeResponse emptyResponse (cout (conns d ! i)) = (err, w)"
      by (cases "writeResponse emptyResponse (cout (conns d ! i))") auto
    show thesis using assms
      by (intro ended [OF _ _ _ _ wr]) (auto simp: def Hangup emptyResponse_def)
  next
    case (Refuse resp)
    then have "\<not> respOK resp"
      by (auto simp: handleRequest_def errorResponse_def emptyResponse_def split: sum.splits if_splits)
    obtain err w where wr: "writeResponse resp (cout (conns d ! i)) = (err, w)"
      by (cases "writeResponse resp (cout (conns d ! i))") auto
    show thesis using assms
      by (intro ended [OF _ _ _ _ wr \<open>\<not> respOK resp\<close>]) (auto simp: def Refuse wr split: option.splits)
  next
    case (CallPush ch p)
    show thesis using assms
      by (intro push [of "(conns d ! i)\<lparr>cin := r, hnd := HPush ch p\<rparr>" ch p
            "if gone (conns d ! i) then Some Canceled else None"]) (auto simp: def CallPush)
  next
    case (CallPop cs dl)
    show thesis using assms
      by (intro pop [of "(conns d ! i)\<lparr>cin := r, hnd := HPop cs dl\<rparr>" cs dl]) (auto simp: def CallPop)
  qed
qed

lemma step_simulated:
  assumes st: "dstep q d e d'" and sim: "simulated es d" and ag: "agree d"
  shows "simulated (es @ [e]) d'"
  using st
proof cases
  case (accept r w)
  have "\<not> crashed (dsys d)" using simulated_inv [OF sim] by (simp add: sys_inv_def)
  from spawn [OF this] accept have "step (dsys d) Tau (dsys d')" by simp
  from simulated_move [OF sim this] accept show ?thesis by simp
next
  case (request i)
  note idle = handles_idle [OF request(1) ag]
  from request(2) show ?thesis
  proof (cases rule: receive_cases)
    case (ended c resp r w)
    then have "in_broker e = []" by auto
    with ended sim show ?thesis by (intro simulated_stutter) auto
  next
    case (push c ch p x)
    with call_push [of "dsys d" i] idle have "step (dsys d) Tau (dsys d')" by simp
    from simulated_move [OF sim this] push show ?thesis by simp
  next
    case (pop c cs dl)
    with call_pop [of "dsys d" i] idle have "step (dsys d) Tau (dsys d')" by simp
    from simulated_move [OF sim this] pop show ?thesis by simp
  qed
next
  case (in_call i c b s)
  then have "step (dsys d) b (dsys d')"
    using perform_step_sound perform_alt_sound by auto
  from simulated_move [OF sim this] in_call show ?thesis by simp
next
  case (push_returns i ch p res)
  with respond_dsys push_return [OF push_returns(2)] have "step (dsys d) Tau (dsys d')" "in_broker e = []"
    by (metis)+
  from simulated_move [OF sim this(1)] this(2) show ?thesis by simp
next
  case (pop_returns i cs dl res)
  with respond_dsys pop_return [OF pop_returns(2)] have "step (dsys d) Tau (dsys d')" "in_broker e = []"
    by (metis)+
  from simulated_move [OF sim this(1)] this(2) show ?thesis by simp
next
  case (deadline i cs t)
  have "runs (dsys d) i (at (threads (dsys d) ! i))"
    using deadline(3) ag by (intro alive_runs) (simp_all add: handles_def)
  from cancel_simulated [OF sim this, of DeadlineExceeded d'] deadline show ?thesis
    by (simp add: set_thread_def)
next
  case (peer_closed i)
  with alive_runs [OF _ ag] cancel_simulated [OF sim, of i _ Canceled d'] show ?thesis
    by (auto simp: cancelConn_def set_conn_def set_thread_def Let_def split: handler.splits
        intro: simulated_stutter [OF sim])
next
  case (server_done i)
  with alive_runs [OF _ ag] cancel_simulated [OF sim, of i _ Canceled d'] show ?thesis
    by (auto simp: cancelConn_def set_conn_def set_thread_def Let_def split: handler.splits
        intro: simulated_stutter [OF sim])
qed (auto simp: set_conn_def intro: simulated_stutter [OF sim])

section \<open>The handler and its goroutine agree\<close>

lemma agree_cancel:
  assumes ag: "agree d" and i: "i < length (conns d)"
  shows "agree (cancelConn d i w)"
proof -
  have fit: "fits (conns d ! i) (threads (dsys d) ! i)" using ag i by (simp add: agree_def)
  show ?thesis
  proof (cases "hnd (conns d ! i)")
    case (HPush c p)
    with fit have "fits ((conns d ! i)\<lparr>gone := True, watched := w\<rparr>)
        (cancelWith Canceled (threads (dsys d) ! i))"
      by (auto simp: fits_def cancelWith_def split: option.splits)
    then show ?thesis
      by (rule agree_update [OF ag i, rotated 2])
         (simp_all add: cancelConn_def set_conn_def set_thread_def Let_def HPush)
  qed (rule agree_update [OF ag i, where c = "(conns d ! i)\<lparr>gone := True, watched := w\<rparr>"
            and th = "threads (dsys d) ! i"],
       use fit in \<open>simp_all add: cancelConn_def set_conn_def Let_def fits_def\<close>)+
qed

lemma agree_respond:
  assumes ag: "agree d" and i: "i < length (conns d)" and resp: "respond d i ok resp = (e, d')"
  shows "agree d'"
proof -
  obtain c where c: "conns d' = (conns d)[i := c]" "hnd c = HRead \<or> hnd c = HDone"
    using resp by (auto simp: respond_def set_conn_def finish_def Let_def split: prod.splits option.splits if_splits)
  have "threads (dsys d') = (threads (dsys d))[i := (threads (dsys d) ! i)\<lparr>at := Idle\<rparr>]"
    using respond_dsys [OF resp] by (simp add: goto_def)
  from agree_update [OF ag i c(1) this] c(2) show ?thesis by (auto simp: fits_def)
qed

lemma agree_receive:
  assumes ag: "agree d" and h: "handles d i HRead" and rcv: "receive q d i = (e, d')"
  shows "agree d'"
proof -
  have i: "i < length (conns d)" using h by (simp add: handles_def)
  have idle: "at (threads (dsys d) ! i) = Idle"
    using handles_idle [OF h ag] by (simp add: runs_def)
  note upd = agree_update [OF ag i]
  from rcv show ?thesis
  proof (cases rule: receive_cases)
    case (ended c resp r w)
    from upd [OF ended(1), of "threads (dsys d) ! i"] ended idle show ?thesis by (simp add: fits_def)
  next
    case (push c ch p x)
    from upd [OF push(1), of "\<lparr>at = pushEnter (brk (dsys d)) ch p, ctx = x\<rparr>"] push serves_enter
    show ?thesis by (auto simp: fits_def)
  next
    case (pop c cs dl)
    from upd [OF pop(1), of "\<lparr>at = popEnter cs, ctx = None\<rparr>"] pop serves_enter
    show ?thesis by (cases dl) (auto simp: fits_def)
  qed
qed

lemma step_agree:
  assumes st: "dstep q d e d'" and inv: "sys_inv (dsys d)" and ag: "agree d"
  shows "agree d'"
  using st
proof cases
  case (accept r w)
  with ag show ?thesis by (auto simp: agree_def nth_append fits_def less_Suc_eq)
next
  case (request i)
  with ag show ?thesis by (blast intro: agree_receive)
next
  case (in_call i c b s)
  have fit: "fits (conns d ! i) (threads (dsys d) ! i)" using ag in_call(4) by (simp add: agree_def)
  moreover have "at (threads (dsys d) ! i) = c" using in_call(5) by (simp add: runs_def)
  ultimately obtain c' where c': "threads s = (threads (dsys d))[i := (threads (dsys d) ! i)\<lparr>at := c'\<rparr>]"
    "serves (hnd (conns d ! i)) c'"
    using performs_moves [OF in_call(7,5) inv _ in_call(6)] by (auto simp: fits_def)
  then show ?thesis
    using agree_update [OF ag in_call(4), of d' "conns d ! i" "(threads (dsys d) ! i)\<lparr>at := c'\<rparr>"] fit in_call(2)
    by (simp add: fits_def)
next
  case (push_returns i ch p res)
  with ag show ?thesis by (auto simp: handles_def intro: agree_respond)
next
  case (pop_returns i cs dl res)
  with ag show ?thesis by (auto simp: handles_def intro: agree_respond)
next
  case (deadline i cs t)
  then have i: "i < length (conns d)" "hnd (conns d ! i) = HPop cs (Some t)" by (simp_all add: handles_def)
  then have "fits (conns d ! i) (cancelWith DeadlineExceeded (threads (dsys d) ! i))"
    using ag by (auto simp: agree_def fits_def cancelWith_def split: option.splits)
  then show ?thesis
    by (rule agree_update [OF ag i(1), rotated 2]) (simp_all add: deadline set_thread_def)
next
  case (peer_closed i)
  with ag show ?thesis by (simp add: agree_cancel)
next
  case (server_done i)
  with ag show ?thesis by (simp add: agree_cancel)
next
  case (broken i err)
  show ?thesis
    by (rule agree_update [OF ag broken(4), where c = "(conns d ! i)\<lparr>cout := (cout (conns d ! i))\<lparr>conn_err := Some err\<rparr>\<rparr>"
            and th = "threads (dsys d) ! i"])
       (use ag broken in \<open>simp_all add: set_conn_def agree_def fits_def\<close>)
qed (use ag in \<open>simp_all add: agree_def\<close>)

interpretation dsim: transition_invariant daemon_init "dstep q" "\<lambda>es d. simulated es d \<and> agree d" for q
proof
  fix d
  assume "daemon_init d"
  then obtain maxQ where "0 \<le> maxQ" "maxQ + defaultMaxBytes < 2 ^ 63" "d = daemon_start maxQ"
    by (auto simp: daemon_init_def)
  moreover from this have "sys_init (dsys d)"
    unfolding sys_init_def
    by (intro exI [of _ defaultMaxBytes] exI [of _ maxQ] exI [of _ True])
       (simp add: daemon_start_def defaultMaxBytes_def)
  ultimately show "simulated [] d \<and> agree d"
    using exec_start [of sys_init "dsys d" step]
    by (auto simp: simulated_def agree_def daemon_start_def sys_start_def)
next
  fix es d e d'
  assume "simulated es d \<and> agree d" and "dstep q d e d'"
  then show "simulated (es @ [e]) d' \<and> agree d'"
    using step_simulated step_agree simulated_inv by blast
qed

end
