(* ===== verification/ServerLedger.thy ===== *)
theory ServerLedger
  imports ServerInv
begin

text \<open>
  What the daemon owes its clients: the messages pushes were accepted for but not yet acknowledged,
  and the messages pops took but not yet delivered. The contract of a ledger is stated once and
  interpreted for both directions; the wire invariant says which bytes each connection carries.
\<close>

section \<open>The contract of a ledger\<close>

definition total_owed :: "(handler \<Rightarrow> control \<Rightarrow> 'm multiset) \<Rightarrow> daemon \<Rightarrow> 'm multiset" where
  "total_owed f d = (\<Sum>i<length (conns d). f (hnd (conns d ! i)) (at (threads (dsys d) ! i)))"

lemma nth_update_same: "f x = f (xs ! i) \<Longrightarrow> f (xs[i := x] ! j) = f (xs ! j)"
  by (cases "j = i"; cases "i < length xs") (simp_all add: list_update_beyond)

lemma total_owed_update:
  assumes ag: "agree d" and i: "i < length (conns d)"
    and "conns d' = (conns d)[i := c]" and "threads (dsys d') = (threads (dsys d))[i := th]"
  shows "total_owed f d' + f (hnd (conns d ! i)) (at (threads (dsys d) ! i)) = total_owed f d + f (hnd c) (at th)"
proof -
  let ?g = "\<lambda>d j. f (hnd (conns d ! j)) (at (threads (dsys d) ! j))"
  have len: "length (threads (dsys d)) = length (conns d)" using ag by (simp add: agree_def)
  have "(\<Sum>j\<in>{..<length (conns d)} - {i}. ?g d' j) = (\<Sum>j\<in>{..<length (conns d)} - {i}. ?g d j)"
    by (rule sum.cong) (auto simp: assms(3,4))
  moreover have "?g d' i = f (hnd c) (at th)" using i len by (simp add: assms(3,4))
  moreover have "total_owed f d' = ?g d' i + (\<Sum>j\<in>{..<length (conns d)} - {i}. ?g d' j)"
    using i by (simp add: total_owed_def assms(3) sum.remove)
  moreover have "total_owed f d = ?g d i + (\<Sum>j\<in>{..<length (conns d)} - {i}. ?g d j)"
    using i by (simp add: total_owed_def sum.remove)
  ultimately show ?thesis by (simp add: ac_simps)
qed

locale ledger =
  fixes owed :: "handler \<Rightarrow> control \<Rightarrow> 'm multiset"
    and credit :: "event \<Rightarrow> 'm multiset"
    and debit :: "devent \<Rightarrow> 'm multiset"
  assumes free: "owed HRead c = {#}" "owed HDone c = {#}" "credit Tau = {#}"
    and entered: "owed (HPush ch p) (pushEnter b ch p) = {#}" "owed (HPop cs dl) (popEnter cs) = {#}"
    and silent: "debit Quiet = {#}" "debit (InBroker e) = {#}"
    and refused: "\<not> respOK resp \<Longrightarrow> debit (Answered i HRead resp) = {#}"
      "\<not> respOK resp \<Longrightarrow> debit (Dropped i HRead resp) = {#}"
    and moved: "perform_step s t c = Some (e, s') \<or> perform_alt s t c = Some (e, s') \<Longrightarrow>
      runs s t c \<Longrightarrow> sys_inv s \<Longrightarrow> serves h c \<Longrightarrow> inside c \<Longrightarrow>
      owed h (at (threads s' ! t)) = owed h c + credit e"
    and settled_push: "debit (Answered i (HPush ch p) (pushResponse q res)) = owed (HPush ch p) (PushRet res)"
      "debit (Dropped i (HPush ch p) (pushResponse q res)) = owed (HPush ch p) (PushRet res)"
    and settled_pop: "debit (Answered i (HPop cs dl) (popResponse q r)) = owed (HPop cs dl) (PopRet r)"
      "debit (Dropped i (HPop cs dl) (popResponse q r)) = owed (HPop cs dl) (PopRet r)"
begin

lemma respond_settles:
  assumes ag: "agree d" and i: "i < length (conns d)" and resp: "respond d i ok r = (e, d')"
  shows "total_owed owed d' + owed (hnd (conns d ! i)) (at (threads (dsys d) ! i)) = total_owed owed d"
    and "e = Answered i (hnd (conns d ! i)) r \<or> e = Dropped i (hnd (conns d ! i)) r"
proof -
  obtain c where c: "conns d' = (conns d)[i := c]" "hnd c = HRead \<or> hnd c = HDone"
    using resp by (auto simp: respond_def set_conn_def finish_def Let_def split: prod.splits option.splits if_splits)
  have "threads (dsys d') = (threads (dsys d))[i := (threads (dsys d) ! i)\<lparr>at := Idle\<rparr>]"
    using respond_dsys [OF resp] by (simp add: goto_def)
  from total_owed_update [OF ag i c(1) this, of owed] c(2)
  show "total_owed owed d' + owed (hnd (conns d ! i)) (at (threads (dsys d) ! i)) = total_owed owed d"
    using free by auto
  show "e = Answered i (hnd (conns d ! i)) r \<or> e = Dropped i (hnd (conns d ! i)) r"
    using resp by (auto simp: respond_def Let_def split: prod.splits option.splits)
qed

lemma same_total:
  assumes "length (conns d') = length (conns d)"
    and "\<And>i. i < length (conns d) \<Longrightarrow> hnd (conns d' ! i) = hnd (conns d ! i)
      \<and> at (threads (dsys d') ! i) = at (threads (dsys d) ! i)"
  shows "total_owed owed d' = total_owed owed d"
  unfolding total_owed_def using assms by (intro sum.cong) auto

lemma at_cancelWith [simp]: "at (cancelWith err th) = at th"
  by (simp add: cancelWith_def)

lemma cancel_total: "total_owed owed (cancelConn d i w) = total_owed owed d"
  by (rule same_total)
     (simp_all add: cancelConn_def set_conn_def set_thread_def Let_def nth_update_same [of hnd]
        nth_update_same [of at] split: handler.splits)

lemma receive_total:
  assumes ag: "agree d" and h: "handles d i HRead" and rcv: "receive q d i = (e, d')"
  shows "total_owed owed d' = total_owed owed d \<and> debit e = {#} \<and> in_broker e = []"
proof -
  have i: "i < length (conns d)" "hnd (conns d ! i) = HRead" using h by (simp_all add: handles_def)
  note upd = total_owed_update [OF ag i(1), where f = owed]
  from rcv show ?thesis
  proof (cases rule: receive_cases)
    case (ended c resp r w)
    from upd [OF ended(1), of "threads (dsys d) ! i"] ended i free silent refused show ?thesis
      by (auto split: if_splits)
  next
    case (push c ch p x)
    from upd [OF push(1), of "\<lparr>at = pushEnter (brk (dsys d)) ch p, ctx = x\<rparr>"] push i free entered silent
    show ?thesis by simp
  next
    case (pop c cs dl)
    from upd [OF pop(1), of "\<lparr>at = popEnter cs, ctx = None\<rparr>"] pop i free entered silent
    show ?thesis by simp
  qed
qed

lemma step_balance:
  assumes st: "dstep q d e d'" and inv: "sys_inv (dsys d)" and ag: "agree d"
  shows "(\<Sum>b\<leftarrow>in_broker e. credit b) + total_owed owed d = debit e + total_owed owed d'"
  using st
proof cases
  case (accept r w)
  have "total_owed owed d' = total_owed owed d"
    using accept ag by (simp add: total_owed_def agree_def nth_append free)
  with accept show ?thesis by (simp add: silent)
next
  case (request i)
  from receive_total [OF ag request] show ?thesis by simp
next
  case (in_call i c b s)
  have fit: "fits (conns d ! i) (threads (dsys d) ! i)" using ag in_call(4) by (simp add: agree_def)
  have at: "at (threads (dsys d) ! i) = c" "i < length (threads (dsys d))" using in_call(5) by (simp_all add: runs_def)
  then obtain c' where c': "threads s = (threads (dsys d))[i := (threads (dsys d) ! i)\<lparr>at := c'\<rparr>]"
    using performs_moves [OF in_call(7,5) inv _ in_call(6)] fit by (auto simp: fits_def)
  have "owed (hnd (conns d ! i)) (at (threads s ! i)) = owed (hnd (conns d ! i)) c + credit b"
    using moved [OF in_call(7,5) inv _ in_call(6)] fit at by (simp add: fits_def)
  then have "owed (hnd (conns d ! i)) c' = owed (hnd (conns d ! i)) c + credit b"
    using c' at by simp
  moreover have "total_owed owed d' + owed (hnd (conns d ! i)) c = total_owed owed d + owed (hnd (conns d ! i)) c'"
    using total_owed_update [OF ag in_call(4), of d' "conns d ! i" "(threads (dsys d) ! i)\<lparr>at := c'\<rparr>" owed] c' at in_call(2)
    by simp
  ultimately have "total_owed owed d' = total_owed owed d + credit b" by (simp add: ac_simps)
  then show ?thesis using in_call(1) by (simp add: silent ac_simps)
next
  case (push_returns i ch p res)
  then have i: "i < length (conns d)" "hnd (conns d ! i) = HPush ch p" "at (threads (dsys d) ! i) = PushRet res"
    by (simp_all add: handles_def runs_def)
  from respond_settles [OF ag i(1) push_returns(3)] i respond_dsys [OF push_returns(3)] settled_push [of i ch p q res]
  show ?thesis by (auto simp: ac_simps)
next
  case (pop_returns i cs dl res)
  then have i: "i < length (conns d)" "hnd (conns d ! i) = HPop cs dl" "at (threads (dsys d) ! i) = PopRet res"
    by (simp_all add: handles_def runs_def)
  from respond_settles [OF ag i(1) pop_returns(3)] i respond_dsys [OF pop_returns(3)] settled_pop [of i cs dl q res]
  show ?thesis by (auto simp: ac_simps)
next
  case (deadline i cs t)
  have "total_owed owed d' = total_owed owed d"
    by (rule same_total) (simp_all add: deadline set_thread_def nth_update_same [of at])
  with deadline show ?thesis by (simp add: silent)
next
  case (peer_closed i)
  then show ?thesis by (simp add: cancel_total silent)
next
  case (server_done i)
  then show ?thesis by (simp add: cancel_total silent)
next
  case (broken i err)
  have "total_owed owed d' = total_owed owed d"
    by (rule same_total) (simp_all add: broken set_conn_def nth_update_same [of hnd])
  with broken show ?thesis by (simp add: silent)
qed (simp_all add: silent total_owed_def)

lemma balance:
  assumes "execution daemon_init (dstep q) es d"
  shows "(\<Sum>b\<leftarrow>broker_log es. credit b) = (\<Sum>e\<leftarrow>es. debit e) + total_owed owed d"
  using assms
proof (induction rule: execution.induct)
  case (exec_start d)
  then show ?case by (auto simp: daemon_init_def daemon_start_def total_owed_def)
next
  case (exec_step es d e d')
  from dsim.always [OF exec_step.hyps(1)] have "agree d" "sys_inv (dsys d)" by (auto dest: simulated_inv)
  from step_balance [OF exec_step.hyps(2) this(2,1)] exec_step.IH show ?case
    by (simp add: ac_simps)
qed

end

section \<open>Pushes: accepted, then acknowledged\<close>

fun push_owed :: "handler \<Rightarrow> control \<Rightarrow> (string \<times> bytes) multiset" where
  "push_owed (HPush c p) (PushReply w d) = {#(c, p)#}"
| "push_owed (HPush c p) (PushRet None) = {#(c, p)#}"
| "push_owed _ _ = {#}"

fun acked_of :: "devent \<Rightarrow> (string \<times> bytes) list" where
  "acked_of (Answered i (HPush c p) resp) = (if respOK resp then [(c, p)] else [])"
| "acked_of _ = []"

fun unacked_of :: "devent \<Rightarrow> (string \<times> bytes) list" where
  "unacked_of (Dropped i (HPush c p) resp) = (if respOK resp then [(c, p)] else [])"
| "unacked_of _ = []"

text \<open>The messages acknowledged with an OK response, and those whose OK response was not written.\<close>

definition acked :: "devent list \<Rightarrow> (string \<times> bytes) list" where
  "acked es = concat (map acked_of es)"

definition unacked :: "devent list \<Rightarrow> (string \<times> bytes) list" where
  "unacked es = concat (map unacked_of es)"

lemma push_owed_simps [simp]:
  "push_owed h (pushEnter b c p) = {#}" "push_owed h (PushRet (Some e)) = {#}" "push_owed h (popEnter cs) = {#}"
  by (cases h; simp add: pushEnter_def popEnter_def split: option.splits)+

lemma respOK_responses [simp]:
  "respOK (pushResponse q res) = (res = None)" "respOK (popResponse q r) = (\<not> isl r)"
  by (auto simp: pushResponse_def popResponse_def errorResponse_def emptyResponse_def split: option.splits sum.splits)

lemma push_moved:
  assumes perf: "perform_step s t c = Some (e, s') \<or> perform_alt s t c = Some (e, s')"
    and run: "runs s t c" and inv: "sys_inv s" and srv: "serves h c" and ins: "inside c"
  shows "push_owed h (at (threads s' ! t)) = push_owed h c + mset (stored_of e)"
proof -
  have t: "t < length (threads s)" using run by (simp add: runs_def)
  show ?thesis
  proof (cases c)
    case (PushLock ch p)
    then show ?thesis using perf srv t
      by (cases h) (auto simp: goto_def dest!: pushLocked_Handoff split: prod.splits push_outcome.splits if_splits)
  next
    case (PopLock cs)
    have "step s e s'" using perf run perform_step_sound perform_alt_sound by blast
    then have "\<not> crashed s'" using step_broker [OF _ inv] by blast
    then show ?thesis using perf srv t PopLock
      by (cases h) (auto simp: goto_def split: prod.splits pop_outcome.splits outcome.splits)
  qed (use perf srv ins t in \<open>cases h; auto simp: goto_def split: if_splits option.splits list.splits prod.splits bool.splits\<close>)+
qed

interpretation pushes: ledger push_owed "\<lambda>e. mset (stored_of e)" "\<lambda>e. mset (acked_of e) + mset (unacked_of e)"
proof
  fix q i ch p res
  show "mset (acked_of (Answered i (HPush ch p) (pushResponse q res)))
      + mset (unacked_of (Answered i (HPush ch p) (pushResponse q res))) = push_owed (HPush ch p) (PushRet res)"
    "mset (acked_of (Dropped i (HPush ch p) (pushResponse q res)))
      + mset (unacked_of (Dropped i (HPush ch p) (pushResponse q res))) = push_owed (HPush ch p) (PushRet res)"
    by (cases res; simp)+
qed ((rule push_moved; assumption) | simp)+

section \<open>Pops: taken, then delivered\<close>

fun pop_owed :: "handler \<Rightarrow> control \<Rightarrow> (string \<times> bytes) multiset" where
  "pop_owed (HPop cs dl) (PopRet (Inr d)) = {#(dChannel d, dPayload d)#}"
| "pop_owed _ _ = {#}"

fun delivered_of :: "devent \<Rightarrow> (string \<times> bytes) list" where
  "delivered_of (Answered i (HPop cs dl) resp) = (if respOK resp then [(respChannel resp, respPayload resp)] else [])"
| "delivered_of _ = []"

fun lost_of :: "devent \<Rightarrow> (string \<times> bytes) list" where
  "lost_of (Dropped i (HPop cs dl) resp) = (if respOK resp then [(respChannel resp, respPayload resp)] else [])"
| "lost_of _ = []"

text \<open>The messages written in a response to a pop, and those whose response was not written.\<close>

definition delivered :: "devent list \<Rightarrow> (string \<times> bytes) list" where
  "delivered es = concat (map delivered_of es)"

definition lost :: "devent list \<Rightarrow> (string \<times> bytes) list" where
  "lost es = concat (map lost_of es)"

lemma pop_owed_simps [simp]:
  "pop_owed h (pushEnter b c p) = {#}" "pop_owed h (PopRet (Inl e)) = {#}" "pop_owed h (popEnter cs) = {#}"
  by (cases h; simp add: pushEnter_def popEnter_def split: option.splits)+

lemma pop_moved:
  assumes perf: "perform_step s t c = Some (e, s') \<or> perform_alt s t c = Some (e, s')"
    and run: "runs s t c" and inv: "sys_inv s" and srv: "serves h c" and ins: "inside c"
  shows "pop_owed h (at (threads s' ! t)) = pop_owed h c + mset (returned_of e)"
proof -
  have t: "t < length (threads s)" using run by (simp add: runs_def)
  show ?thesis
  proof (cases c)
    case (PushLock ch p)
    then show ?thesis using perf srv t
      by (cases h) (auto simp: goto_def split: prod.splits push_outcome.splits if_splits)
  next
    case (PopLock cs)
    have "step s e s'" using perf run perform_step_sound perform_alt_sound by blast
    then have "\<not> crashed s'" using step_broker [OF _ inv] by blast
    then show ?thesis using perf srv t PopLock
      by (cases h) (auto simp: goto_def split: prod.splits pop_outcome.splits outcome.splits)
  qed (use perf srv ins t in \<open>cases h; auto simp: goto_def split: if_splits option.splits list.splits prod.splits bool.splits\<close>)+
qed

interpretation pops: ledger pop_owed "\<lambda>e. mset (returned_of e)" "\<lambda>e. mset (delivered_of e) + mset (lost_of e)"
proof
  fix q i cs dl and r :: "goerr + delivery"
  show "mset (delivered_of (Answered i (HPop cs dl) (popResponse q r)))
      + mset (lost_of (Answered i (HPop cs dl) (popResponse q r))) = pop_owed (HPop cs dl) (PopRet r)"
    "mset (delivered_of (Dropped i (HPop cs dl) (popResponse q r)))
      + mset (lost_of (Dropped i (HPop cs dl) (popResponse q r))) = pop_owed (HPop cs dl) (PopRet r)"
    by (cases r; simp add: popResponse_def errorResponse_def emptyResponse_def)+
qed ((rule pop_moved; assumption) | simp)+

lemma mset_concat_map: "mset (concat (map f xs)) = (\<Sum>x\<leftarrow>xs. mset (f x))"
  by (induction xs) simp_all

lemma concat_audible: "f Tau = [] \<Longrightarrow> concat (map f (audible bs)) = concat (map f bs)"
  by (induction bs) (auto simp: audible_def)

lemma audible_logs:
  "accepted (audible bs) = accepted bs" "returned (audible bs) = returned bs" "taken (audible bs) = taken bs"
  by (simp_all add: accepted_def returned_def taken_def concat_audible)

lemma pushes_balance:
  assumes "execution daemon_init (dstep q) es d"
  shows "mset (accepted (broker_log es)) = mset (acked es) + mset (unacked es) + total_owed push_owed d"
  using pushes.balance [OF assms]
  by (simp add: accepted_def acked_def unacked_def mset_concat_map sum_list_addf)

lemma pops_balance:
  assumes "execution daemon_init (dstep q) es d"
  shows "mset (returned (broker_log es)) = mset (delivered es) + mset (lost es) + total_owed pop_owed d"
  using pops.balance [OF assms]
  by (simp add: returned_def delivered_def lost_def mset_concat_map sum_list_addf)

section \<open>The bytes on a connection\<close>

fun answer_on :: "nat \<Rightarrow> devent \<Rightarrow> response list" where
  "answer_on i (Answered j h resp) = (if j = i then [resp] else [])"
| "answer_on i _ = []"

definition answers :: "nat \<Rightarrow> devent list \<Rightarrow> response list" where
  "answers i es = concat (map (answer_on i) es)"

lemma answers_simps [simp]: "answers i [] = []" "answers i (es @ [e]) = answers i es @ answer_on i e"
  by (simp_all add: answers_def)

definition wired :: "devent list \<Rightarrow> nat \<Rightarrow> conn \<Rightarrow> bool" where
  "wired es i c \<longleftrightarrow>
     sent (cout c) = concat (map response_frame (answers i es))
     \<and> (\<forall>resp \<in> set (answers i es). valid_response resp)
     \<and> (hnd c \<noteq> HDone \<longrightarrow> pending (cout c) = [] \<and> sticky (cout c) = None)"

definition all_wired :: "devent list \<Rightarrow> daemon \<Rightarrow> bool" where
  "all_wired es d \<longleftrightarrow>
     (\<forall>i < length (conns d). wired es i (conns d ! i)) \<and> (\<forall>i \<ge> length (conns d). answers i es = [])"

lemma all_wired_update:
  assumes "all_wired es d" and "i < length (conns d)" and "conns d' = (conns d)[i := c]"
    and "wired (es @ [e]) i c" and "\<And>j. j \<noteq> i \<Longrightarrow> answer_on j e = []"
  shows "all_wired (es @ [e]) d'"
  using assms by (auto simp: all_wired_def wired_def nth_list_update)

lemma all_wired_same:
  assumes "all_wired es d" and "conns d' = conns d" and "\<And>j. answer_on j e = []"
  shows "all_wired (es @ [e]) d'"
  using assms by (auto simp: all_wired_def wired_def)

lemma wired_write:
  assumes w: "wired es i c" and live: "hnd c \<noteq> HDone"
    and wr: "writeResponse resp (cout c) = (r, w')"
    and c': "cout c' = w'" and e: "e = (if r = None then Answered i h resp else Dropped i h resp)"
    and fin: "r \<noteq> None \<longrightarrow> hnd c' = HDone"
  shows "wired (es @ [e]) i c'"
proof -
  have "pending (cout c) = []" "sticky (cout c) = None" using w live by (simp_all add: wired_def)
  then show ?thesis
    by (cases rule: writeResponse_cases [where resp = resp])
       (use w wr c' e fin in \<open>auto simp: wired_def\<close>)
qed

lemma wired_quiet:
  assumes "wired es i c" and "hnd c = HDone \<longrightarrow> hnd c' = HDone" and "sent (cout c') = sent (cout c)"
    and "pending (cout c') = pending (cout c)" and "sticky (cout c') = sticky (cout c)" and "answer_on i e = []"
  shows "wired (es @ [e]) i c'"
  using assms by (auto simp: wired_def)

lemma respond_wired:
  assumes w: "all_wired es d" and i: "i < length (conns d)" and live: "hnd (conns d ! i) \<noteq> HDone"
    and resp: "respond d i ok r = (e, d')"
  shows "all_wired (es @ [e]) d'"
proof -
  obtain x w' where wr: "writeResponse r (cout (conns d ! i)) = (x, w')"
    by (cases "writeResponse r (cout (conns d ! i))") auto
  let ?c = "(conns d ! i)\<lparr>cout := w'\<rparr>"
  let ?c' = "if x = None \<and> ok then ?c\<lparr>hnd := HRead\<rparr> else finish ?c"
  have e: "e = (if x = None then Answered i (hnd (conns d ! i)) r else Dropped i (hnd (conns d ! i)) r)"
    and c: "conns d' = (conns d)[i := ?c']"
    using resp by (auto simp: respond_def wr set_conn_def Let_def split: option.splits)
  have "wired es i (conns d ! i)" using w i by (simp add: all_wired_def)
  from wired_write [OF this live wr, of ?c' e] e have "wired (es @ [e]) i ?c'" by (simp add: finish_def)
  with w i c show ?thesis by (rule all_wired_update) (auto simp: e)
qed

lemma receive_wired:
  assumes w: "all_wired es d" and h: "handles d i HRead" and rcv: "receive q d i = (e, d')"
  shows "all_wired (es @ [e]) d'"
proof -
  have i: "i < length (conns d)" "hnd (conns d ! i) = HRead" using h by (simp_all add: handles_def)
  have wi: "wired es i (conns d ! i)" using w i by (simp add: all_wired_def)
  from rcv show ?thesis
  proof (cases rule: receive_cases)
    case (ended c resp r x)
    from ended(7) show ?thesis
    proof
      assume "e = Quiet \<and> cout c = cout (conns d ! i)"
      with wi ended(4) have "wired (es @ [e]) i c" by (intro wired_quiet [OF wi]) auto
      with w i(1) ended(1) show ?thesis by (rule all_wired_update) (use \<open>e = Quiet \<and> _\<close> in simp)
    next
      assume e: "e = (if r = None then Answered i HRead resp else Dropped i HRead resp) \<and> cout c = x"
      with wired_write [OF wi _ ended(5), of c e] i ended(4) have "wired (es @ [e]) i c" by auto
      with w i(1) ended(1) show ?thesis by (rule all_wired_update) (use e in auto)
    qed
  next
    case (push c ch p x)
    with wi i have "wired (es @ [e]) i c" by (intro wired_quiet [OF wi]) auto
    with w i(1) push(1) show ?thesis by (rule all_wired_update) (simp add: push)
  next
    case (pop c cs dl)
    with wi i have "wired (es @ [e]) i c" by (intro wired_quiet [OF wi]) auto
    with w i(1) pop(1) show ?thesis by (rule all_wired_update) (simp add: pop)
  qed
qed

lemma conns_cancelConn:
  "conns (cancelConn d i w) = (conns d)[i := (conns d ! i)\<lparr>gone := True, watched := w\<rparr>]"
  by (simp add: cancelConn_def set_conn_def set_thread_def Let_def split: handler.splits)

lemma step_wired:
  assumes st: "dstep q d e d'" and w: "all_wired es d"
  shows "all_wired (es @ [e]) d'"
  using st
proof cases
  case (accept r x)
  with w show ?thesis
    by (auto simp: all_wired_def wired_def nth_append newWriter_def less_Suc_eq)
next
  case (request i)
  with w show ?thesis by (blast intro: receive_wired)
next
  case (push_returns i ch p res)
  with w show ?thesis by (intro respond_wired [OF w]) (auto simp: handles_def)
next
  case (pop_returns i cs dl res)
  with w show ?thesis by (intro respond_wired [OF w]) (auto simp: handles_def)
next
  case (peer_closed i)
  then have "wired es i (conns d ! i)" using w by (simp add: all_wired_def)
  then have "wired (es @ [e]) i ((conns d ! i)\<lparr>gone := True, watched := False\<rparr>)"
    by (rule wired_quiet) (simp_all add: peer_closed)
  then show ?thesis
    using peer_closed by (intro all_wired_update [OF w peer_closed(4)]) (simp_all add: conns_cancelConn)
next
  case (server_done i)
  then have "wired es i (conns d ! i)" using w by (simp add: all_wired_def)
  then have "wired (es @ [e]) i ((conns d ! i)\<lparr>gone := True, watched := watched (conns d ! i)\<rparr>)"
    by (rule wired_quiet) (simp_all add: server_done)
  then show ?thesis
    using server_done by (intro all_wired_update [OF w server_done(4)]) (simp_all add: conns_cancelConn)
next
  case (broken i err)
  then have "wired es i (conns d ! i)" using w by (simp add: all_wired_def)
  then have "wired (es @ [e]) i ((conns d ! i)\<lparr>cout := (cout (conns d ! i))\<lparr>conn_err := Some err\<rparr>\<rparr>)"
    by (rule wired_quiet) (simp_all add: broken)
  then show ?thesis
    using broken by (intro all_wired_update [OF w broken(4)]) (simp_all add: set_conn_def)
qed (use w in \<open>auto simp: set_thread_def intro!: all_wired_same\<close>)

interpretation wires: transition_invariant daemon_init "dstep q" all_wired for q
proof
  fix d
  assume "daemon_init d"
  then show "all_wired [] d" by (auto simp: daemon_init_def daemon_start_def all_wired_def)
qed (rule step_wired)

end
