(* ===== verification/ServerSched.thy ===== *)
theory ServerSched
  imports ServerLedger
begin

text \<open>
  An executable scheduler for the daemon. An action names the connection that moves; every action
  performed is a step of the daemon, so evaluated runs are executions.
\<close>

datatype daction =
    DAccept reader bool
  | DRequest nat
  | DStep nat
  | DAlt nat
  | DRespond nat
  | DDeadline nat
  | DPeerClosed nat
  | DBroken nat goerr
  | DSignal

definition serving :: "daemon \<Rightarrow> nat \<Rightarrow> bool" where
  "serving d i \<longleftrightarrow> alive d \<and> i < length (conns d) \<and> i < length (threads (dsys d)) \<and> \<not> crashed (dsys d)"

fun timed :: "handler \<Rightarrow> bool" where
  "timed (HPop cs (Some t)) = True"
| "timed _ = False"

fun answerable :: "(string \<Rightarrow> string) \<Rightarrow> handler \<Rightarrow> control \<Rightarrow> (bool \<times> response) option" where
  "answerable q (HPush c p) (PushRet res) = Some (res = None, pushResponse q res)"
| "answerable q (HPop cs dl) (PopRet r) = Some (\<not> isl r, popResponse q r)"
| "answerable q _ _ = None"

definition in_daemon :: "daemon \<Rightarrow> (event \<times> sys) option \<Rightarrow> (devent \<times> daemon) option" where
  "in_daemon d res = map_option (\<lambda>(e, s). (InBroker e, d\<lparr>dsys := s\<rparr>)) res"

fun dperform :: "(string \<Rightarrow> string) \<Rightarrow> daemon \<Rightarrow> daction \<Rightarrow> (devent \<times> daemon) option" where
  "dperform q d (DAccept r w) =
     (if listening d
      then Some (Quiet, d\<lparr>dsys := (dsys d)\<lparr>threads := threads (dsys d) @ [\<lparr>at = Idle, ctx = None\<rparr>]\<rparr>,
             conns := conns d @ [\<lparr>cin = r, cout = newWriter None, hnd = HRead, watched = w,
                                  gone = (phase d \<noteq> Accepting)\<rparr>]\<rparr>)
      else None)"
| "dperform q d (DRequest i) = (if handles d i HRead then Some (receive q d i) else None)"
| "dperform q d (DStep i) =
     (if serving d i \<and> inside (at (threads (dsys d) ! i))
      then in_daemon d (perform_step (dsys d) i (at (threads (dsys d) ! i))) else None)"
| "dperform q d (DAlt i) =
     (if serving d i \<and> inside (at (threads (dsys d) ! i))
      then in_daemon d (perform_alt (dsys d) i (at (threads (dsys d) ! i))) else None)"
| "dperform q d (DRespond i) =
     (if serving d i then
        (case answerable q (hnd (conns d ! i)) (at (threads (dsys d) ! i)) of
           None \<Rightarrow> None
         | Some (ok, resp) \<Rightarrow> Some (respond d i ok resp))
      else None)"
| "dperform q d (DDeadline i) =
     (if serving d i \<and> timed (hnd (conns d ! i))
      then Some (Quiet, set_thread d i (cancelWith DeadlineExceeded (threads (dsys d) ! i))) else None)"
| "dperform q d (DPeerClosed i) =
     (if serving d i \<and> watched (conns d ! i) then Some (Quiet, cancelConn d i False) else None)"
| "dperform q d (DBroken i err) =
     (if serving d i
      then Some (Quiet, set_conn d i ((conns d ! i)\<lparr>cout := (cout (conns d ! i))\<lparr>conn_err := Some err\<rparr>\<rparr>))
      else None)"
| "dperform q d DSignal =
     (if alive d \<and> phase d = Accepting then Some (Quiet, d\<lparr>phase := Signalled\<rparr>) else None)"

lemma serving_runs: "serving d i \<Longrightarrow> runs (dsys d) i (at (threads (dsys d) ! i))"
  by (simp add: serving_def runs_def)

lemma dperform_sound: "dperform q d a = Some (e, d') \<Longrightarrow> dstep q d e d'"
proof (cases a)
  case (DAccept r w)
  then show "dperform q d a = Some (e, d') \<Longrightarrow> dstep q d e d'" by (auto intro: accept split: if_splits)
next
  case (DRequest i)
  then show "dperform q d a = Some (e, d') \<Longrightarrow> dstep q d e d'" by (auto intro: request split: if_splits)
next
  case (DStep i)
  then show "dperform q d a = Some (e, d') \<Longrightarrow> dstep q d e d'"
    by (auto simp: in_daemon_def serving_def runs_def intro: in_call split: if_splits)
next
  case (DAlt i)
  then show "dperform q d a = Some (e, d') \<Longrightarrow> dstep q d e d'"
    by (auto simp: in_daemon_def serving_def runs_def intro: in_call split: if_splits)
next
  case (DRespond i)
  assume "dperform q d a = Some (e, d')"
  with DRespond obtain ok resp where s: "serving d i"
    and ans: "answerable q (hnd (conns d ! i)) (at (threads (dsys d) ! i)) = Some (ok, resp)"
    and r: "respond d i ok resp = (e, d')"
    by (auto split: if_splits option.splits)
  from s serving_runs [OF s] ans r show "dstep q d e d'"
    by (cases "(q, hnd (conns d ! i), at (threads (dsys d) ! i))" rule: answerable.cases)
       (auto simp: handles_def serving_def intro: push_returns pop_returns)
next
  case (DDeadline i)
  assume "dperform q d a = Some (e, d')"
  with DDeadline have "serving d i" "timed (hnd (conns d ! i))"
    "e = Quiet" "d' = set_thread d i (cancelWith DeadlineExceeded (threads (dsys d) ! i))"
    by (auto split: if_splits)
  then show "dstep q d e d'"
    by (cases "hnd (conns d ! i)" rule: timed.cases) (auto simp: handles_def serving_def intro: deadline)
next
  case (DPeerClosed i)
  then show "dperform q d a = Some (e, d') \<Longrightarrow> dstep q d e d'"
    by (auto simp: serving_def intro: peer_closed split: if_splits)
next
  case (DBroken i err)
  then show "dperform q d a = Some (e, d') \<Longrightarrow> dstep q d e d'"
    by (auto simp: serving_def intro: broken split: if_splits)
next
  case DSignal
  then show "dperform q d a = Some (e, d') \<Longrightarrow> dstep q d e d'" by (auto intro: signal split: if_splits)
qed

interpretation handlers: scheduler daemon_init "dstep q" "dperform q" for q
  by unfold_locales (rule dperform_sound)

abbreviation dleads ::
    "(string \<Rightarrow> string) \<Rightarrow> daemon \<Rightarrow> daction list \<Rightarrow> (devent list \<Rightarrow> daemon \<Rightarrow> bool) \<Rightarrow> bool" where
  "dleads q \<equiv> run_leads (dperform q)"

lemma dleads_execution:
  assumes run: "dleads q (daemon_start maxQ) as P" and lim: "0 \<le> maxQ" "maxQ + defaultMaxBytes < 2 ^ 63"
  obtains es d where "execution daemon_init (dstep q) es d" and "P es d"
proof -
  have "daemon_init (daemon_start maxQ)" using lim by (auto simp: daemon_init_def)
  from handlers.leads [OF run this] that show ?thesis by blast
qed

section \<open>Runs\<close>

text \<open>For evaluation: the comparisons with large bounds, on integers.\<close>

lemma writeString16_code [code]:
  "writeString16 value =
     (if int (length value) > 65535 then wr_fail (StringTooLong (length value))
      else wr_seq (writeUint16 (word_of_nat (length value))) (bwWriteString value))"
  by (simp add: writeString16_def)

lemma writeResponse_code [code]:
  "writeResponse resp =
     (let status = (if \<not> respOK resp then statusError else statusOK) in
      if int (length (respPayload resp)) > defaultMaxBytes
      then wr_fail (PayloadTooLarge defaultMaxBytes)
      else if int (length (respChannel resp)) > 65535
      then wr_fail (ChannelTooLong (length (respChannel resp)))
      else if int (length (respError resp)) > protocolMaxErrorSize
      then wr_fail (ErrorTooLong (length (respError resp)))
      else
        wr_seq (wr_seq (bwWriteByte status)
          (wr_seq (writeString16 (respChannel resp))
            (wr_seq (writeBytes32 (respPayload resp))
              (writeString32 (respError resp)))))
          bwFlush)"
  by (simp add: writeResponse_def)

lemma bwPut_code [code]:
  "bwPut direct p w =
     (case sticky w of
        Some e \<Rightarrow> (Some e, w)
      | None \<Rightarrow>
          if p = [] \<or> int (length p) + int (length (pending w)) \<le> 4096
          then (None, w\<lparr>pending := pending w @ p\<rparr>)
          else
            let avail = bufsize - length (pending w) in
            if direct \<and> pending w = [] then
              (case conn_err w of
                 Some e \<Rightarrow> (Some e, w\<lparr>sticky := Some e\<rparr>)
               | None \<Rightarrow> (None, w\<lparr>sent := sent w @ p\<rparr>))
            else
              (case conn_err w of
                 Some e \<Rightarrow> (Some e, w\<lparr>pending := pending w @ take avail p, sticky := Some e\<rparr>)
               | None \<Rightarrow>
                   bwPut direct (drop avail p)
                     (w\<lparr>sent := sent w @ pending w @ take avail p, pending := []\<rparr>)))"
proof -
  have "length p \<le> bufsize - length (pending w)
      \<longleftrightarrow> p = [] \<or> int (length p) + int (length (pending w)) \<le> 4096"
    by (cases p) (auto simp: bufsize_def)
  then show ?thesis
    by (subst bwPut.simps) (auto simp: Let_def split: option.splits)
qed

definition quoted :: "string \<Rightarrow> string" where
  "quoted s = CHR 0x22 # s @ [CHR 0x22]"

text \<open>A peer that sends one request and closes the connection.\<close>

definition peer :: "request \<Rightarrow> reader" where
  "peer req = \<lparr>rdata = request_frame req, rend = EOF\<rparr>"

definition push_request :: request where
  "push_request = \<lparr>reqOp = ''push'', reqChannels = [''c''], reqPayload = [1, 2], reqTimeoutMS = 0\<rparr>"

definition pop_request :: "int \<Rightarrow> request" where
  "pop_request ms = \<lparr>reqOp = ''pop'', reqChannels = [''c''], reqPayload = [], reqTimeoutMS = ms\<rparr>"

text \<open>Connection 0 pushes, connection 1 pops.\<close>

definition served_run :: "daction list" where
  "served_run =
     [DAccept (peer push_request) True, DAccept (peer (pop_request 0)) True,
      DRequest 0, DStep 0, DRespond 0, DRequest 1, DStep 1, DRespond 1]"

text \<open>
  Connection 0 waits in a pop without a deadline; its peer goes away and the watcher cancels the
  connection's context; then connection 1 pushes, is acknowledged, and the message goes to the
  handler of connection 0, which cannot write it.
\<close>

definition dead_consumer_run :: "daction list" where
  "dead_consumer_run =
     [DAccept (peer (pop_request 0)) True, DAccept (peer push_request) True,
      DRequest 0, DStep 0, DPeerClosed 0, DBroken 0 (Text ''broken pipe''),
      DRequest 1, DStep 1, DStep 1, DRespond 1, DStep 0, DRespond 0]"

text \<open>Connection 0 pops with a deadline, which passes.\<close>

definition timeout_run :: "daction list" where
  "timeout_run =
     [DAccept (peer (pop_request 250)) True, DRequest 0, DStep 0, DDeadline 0, DAlt 0, DStep 0, DStep 0]"

end
