(* ===== verification/ServerProps.thy ===== *)
theory ServerProps
  imports ServerSched
begin

text \<open>
  The properties of the daemon: it implements the concurrent broker, every message is accounted for
  from the acknowledgement of its push to the response of a pop, a client decodes exactly the answers
  given to it, and what becomes of calls whose peer goes away or whose timeout passes.
\<close>

section \<open>The daemon and the broker\<close>

text \<open>
  Property C6. The daemon implements the concurrent broker: in every execution of the daemon,
  with any clients, the broker's part of the state is reached by an execution of the broker
  whose events are the daemon's broker events.
\<close>

theorem daemon_implements_broker:
  assumes "execution daemon_init (dstep q) es d"
  shows "\<exists>bs. execution sys_init step bs (dsys d)
    \<and> filter (\<lambda>e. e \<noteq> Tau) bs = filter (\<lambda>e. e \<noteq> Tau) (broker_log es)"
  using dsim.always [OF assms] by (auto simp: simulated_def audible_def)

lemma served_run_evaluated:
  "dleads quoted (daemon_start 4294967296) served_run
     (\<lambda>es d. acked es = [(''c'', [1, 2])] \<and> delivered es = [(''c'', [1, 2])] \<and> length (conns d) = 2
       \<and> filter (\<lambda>e. e \<noteq> Tau) (broker_log es)
           = [Stored \<lparr>dChannel = ''c'', dPayload = [1, 2]\<rparr>, Served 1 [''c''] \<lparr>dChannel = ''c'', dPayload = [1, 2]\<rparr>]
       \<and> answers 1 es = [\<lparr>respOK = True, respChannel = ''c'', respPayload = [1, 2], respError = []\<rparr>])"
  by code_simp

lemma served_run_execution:
  obtains es d where "execution daemon_init (dstep quoted) es d"
    and "acked es = [(''c'', [1, 2])]" and "delivered es = [(''c'', [1, 2])]" and "length (conns d) = 2"
    and "filter (\<lambda>e. e \<noteq> Tau) (broker_log es)
           = [Stored \<lparr>dChannel = ''c'', dPayload = [1, 2]\<rparr>, Served 1 [''c''] \<lparr>dChannel = ''c'', dPayload = [1, 2]\<rparr>]"
    and "answers 1 es = [\<lparr>respOK = True, respChannel = ''c'', respPayload = [1, 2], respError = []\<rparr>]"
  by (rule dleads_execution [OF served_run_evaluated]) (simp_all add: defaultMaxBytes_def)

lemma daemon_implements_broker_witness:
  "\<exists>bs s. execution sys_init step bs s
     \<and> filter (\<lambda>e. e \<noteq> Tau) bs
         = [Stored \<lparr>dChannel = ''c'', dPayload = [1, 2]\<rparr>, Served 1 [''c''] \<lparr>dChannel = ''c'', dPayload = [1, 2]\<rparr>]"
  by (rule served_run_execution, drule daemon_implements_broker) metis

section \<open>From push to pop\<close>

text \<open>The messages of one channel in a multiset of messages.\<close>

definition on_channel :: "string \<Rightarrow> (string \<times> bytes) multiset \<Rightarrow> bytes multiset" where
  "on_channel c M = image_mset snd (filter_mset (\<lambda>km. fst km = c) M)"

lemma on_channel_simps [simp]:
  "on_channel c {#} = {#}" "on_channel c (M + N) = on_channel c M + on_channel c N"
  "on_channel c (mset xs) = mset (on_key c xs)"
  by (simp_all add: on_channel_def mset_on_key on_key_def)

text \<open>
  Property C5. End to end, on every channel: the messages acknowledged to pushers, together with
  those whose acknowledgement is pending or could not be written, are exactly the messages
  written to poppers, together with those whose response is pending or could not be written,
  those in the queue and those on their way to a waiting pop.
\<close>

theorem messages_end_to_end:
  assumes "execution daemon_init (dstep q) es d"
  shows "mset (on_key c (acked es)) + mset (on_key c (unacked es)) + on_channel c (total_owed push_owed d)
    = mset (on_key c (delivered es)) + mset (on_key c (lost es)) + on_channel c (total_owed pop_owed d)
      + mset (queueOf (brk (dsys d)) c) + mset (on_key c (in_flight (dsys d)))"
proof -
  from dsim.always [OF assms] obtain bs where bs: "execution sys_init step bs (dsys d)"
    "audible bs = audible (broker_log es)" by (auto simp: simulated_def)
  have acc: "accepted bs = accepted (broker_log es)" and ret: "returned bs = returned (broker_log es)"
    and tak: "taken bs = taken (broker_log es)"
    using audible_logs [of bs] audible_logs [of "broker_log es"] bs(2) by simp_all
  have "mset (taken bs) = mset (returned bs) + mset (in_flight (dsys d))"
    using flow.always [OF bs(1)] by (simp add: mset_in_flight)
  then have "on_channel c (mset (taken bs)) = on_channel c (mset (returned bs) + mset (in_flight (dsys d)))"
    by simp
  moreover have "on_key c (accepted bs) = on_key c (taken bs) @ queueOf (brk (dsys d)) c"
    using fifo.always [OF bs(1)] by blast
  moreover have "on_channel c (mset (accepted bs))
      = on_channel c (mset (acked es) + mset (unacked es) + total_owed push_owed d)"
    using pushes_balance [OF assms] acc by simp
  moreover have "on_channel c (mset (returned bs))
      = on_channel c (mset (delivered es) + mset (lost es) + total_owed pop_owed d)"
    using pops_balance [OF assms] ret by simp
  ultimately show ?thesis by (simp add: ac_simps)
qed

lemma messages_end_to_end_witness:
  "\<exists>es d. execution daemon_init (dstep quoted) es d \<and> on_key ''c'' (acked es) = [[1, 2]]
     \<and> on_key ''c'' (delivered es) = [[1, 2]]
     \<and> {#[1, 2]#} + mset (on_key ''c'' (unacked es)) + on_channel ''c'' (total_owed push_owed d)
       = {#[1, 2]#} + mset (on_key ''c'' (lost es)) + on_channel ''c'' (total_owed pop_owed d)
         + mset (queueOf (brk (dsys d)) ''c'') + mset (on_key ''c'' (in_flight (dsys d)))"
proof (rule served_run_execution)
  fix es d
  assume "execution daemon_init (dstep quoted) es d"
    and "acked es = [(''c'', [1, 2])]" "delivered es = [(''c'', [1, 2])]"
  with messages_end_to_end [of quoted es d "''c''"] show ?thesis
    by (intro exI [of _ es] exI [of _ d]) simp
qed

section \<open>What the client sees\<close>



lemma responses_OK: "popResponse q r = resp \<Longrightarrow> respOK resp \<Longrightarrow>
    \<exists>d. r = Inr d \<and> respChannel resp = dChannel d \<and> respPayload resp = dPayload d"
  by (cases r) (auto simp: popResponse_def errorResponse_def emptyResponse_def)

text \<open>
  Property C23. An OK response to a pop carries a message of one of the channels the request
  named, and the handler goes on to read the next request.
\<close>

theorem pop_answer_is_for_its_request:
  assumes "execution daemon_init (dstep q) es d" and "dstep q d (Answered i (HPop cs dl) resp) d'"
    and "respOK resp"
  shows "respChannel resp \<in> set cs \<and> hnd (conns d' ! i) = HRead"
  using assms(2)
proof cases
  case (request)
  then show ?thesis by (auto elim!: receive_cases split: if_splits)
next
  case (push_returns j ch p res)
  then show ?thesis
    by (auto simp: respond_def handles_def Let_def split: prod.splits option.splits)
next
  case (pop_returns j cs' dl' r)
  then have j: "j = i" "cs' = cs" "resp = popResponse q r" "i < length (conns d)" "hnd (conns d ! i) = HPop cs dl'"
    by (auto simp: respond_def handles_def Let_def split: prod.splits option.splits)
  then obtain msg where r: "r = Inr msg" "respChannel resp = dChannel msg"
    using responses_OK assms(3) by metis
  have "fits (conns d ! i) (threads (dsys d) ! i)"
    using dsim.always [OF assms(1)] j(4) by (simp add: agree_def)
  then have "dChannel msg \<in> set cs"
    using pop_returns(2) j r by (simp add: fits_def runs_def)
  moreover have "hnd (conns d' ! i) = HRead"
    using pop_returns(3) j r by (auto simp: respond_def set_conn_def Let_def split: prod.splits option.splits)
  ultimately show ?thesis using r by simp
qed

lemma pop_answer_is_for_its_request_witness:
  "\<exists>es d d' resp. execution daemon_init (dstep quoted) es d
     \<and> dstep quoted d (Answered 1 (HPop [''c''] None) resp) d' \<and> respOK resp
     \<and> respChannel resp \<in> {''c''} \<and> hnd (conns d' ! 1) = HRead"
proof -
  have "dleads quoted (daemon_start 4294967296) (butlast served_run)
      (\<lambda>es d. case dperform quoted d (DRespond 1) of None \<Rightarrow> False
         | Some (Answered i (HPop cs dl) resp, d') \<Rightarrow> i = 1 \<and> cs = [''c''] \<and> dl = None \<and> respOK resp
         | _ \<Rightarrow> False)" by code_simp
  then obtain es d where ex: "execution daemon_init (dstep quoted) es d"
    and "case dperform quoted d (DRespond 1) of None \<Rightarrow> False
         | Some (Answered i (HPop cs dl) resp, d') \<Rightarrow> i = 1 \<and> cs = [''c''] \<and> dl = None \<and> respOK resp
         | _ \<Rightarrow> False"
    by (rule dleads_execution) (auto simp: defaultMaxBytes_def)
  then obtain resp d' where
    "dperform quoted d (DRespond 1) = Some (Answered 1 (HPop [''c''] None) resp, d')" and ok: "respOK resp"
    by (auto split: option.splits prod.splits devent.splits handler.splits simp del: dperform.simps)
  then have st: "dstep quoted d (Answered 1 (HPop [''c''] None) resp) d'" by (intro dperform_sound)
  from pop_answer_is_for_its_request [OF ex st ok] ex st ok show ?thesis by fastforce
qed

text \<open>
  Property C22. After any error response, a pop's timeout included, the handler returns and the
  connection is closed: a client cannot go on using it.
\<close>

theorem error_answer_ends_the_connection:
  assumes "dstep q d (Answered i h resp) d'" and "\<not> respOK resp"
  shows "hnd (conns d' ! i) = HDone"
  using assms(1)
proof cases
  case (request j)
  then have "j < length (conns d)" by (simp add: handles_def)
  with request(2) show ?thesis by (cases rule: receive_cases) (auto split: if_splits)
next
  case (push_returns j ch p res)
  with assms(2) show ?thesis
    by (auto simp: respond_def set_conn_def handles_def finish_def Let_def split: prod.splits option.splits)
next
  case (pop_returns j cs dl r)
  with assms(2) show ?thesis
    by (auto simp: respond_def set_conn_def handles_def finish_def Let_def split: prod.splits option.splits)
qed

lemma error_answer_ends_the_connection_witness:
  "\<exists>es d d' resp. execution daemon_init (dstep quoted) es d
     \<and> dstep quoted d (Answered 0 (HPop [''c''] (Some 250000000)) resp) d'
     \<and> respError resp = ''timeout'' \<and> hnd (conns d' ! 0) = HDone"
proof -
  have "dleads quoted (daemon_start 4294967296) timeout_run
      (\<lambda>es d. case dperform quoted d (DRespond 0) of None \<Rightarrow> False
         | Some (Answered i (HPop cs dl) resp, d') \<Rightarrow>
             i = 0 \<and> cs = [''c''] \<and> dl = Some 250000000 \<and> \<not> respOK resp \<and> respError resp = ''timeout''
         | _ \<Rightarrow> False)" by code_simp
  then obtain es d where ex: "execution daemon_init (dstep quoted) es d"
    and "case dperform quoted d (DRespond 0) of None \<Rightarrow> False
         | Some (Answered i (HPop cs dl) resp, d') \<Rightarrow>
             i = 0 \<and> cs = [''c''] \<and> dl = Some 250000000 \<and> \<not> respOK resp \<and> respError resp = ''timeout''
         | _ \<Rightarrow> False"
    by (rule dleads_execution) (auto simp: defaultMaxBytes_def)
  then obtain resp d' where
    "dperform quoted d (DRespond 0) = Some (Answered 0 (HPop [''c''] (Some 250000000)) resp, d')"
    and err: "\<not> respOK resp" "respError resp = ''timeout''"
    by (auto split: option.splits prod.splits devent.splits handler.splits simp del: dperform.simps)
  then have st: "dstep quoted d (Answered 0 (HPop [''c''] (Some 250000000)) resp) d'"
    by (intro dperform_sound)
  from error_answer_ends_the_connection [OF st err(1)] ex st err show ?thesis by blast
qed

section \<open>Timeouts and peers that go away\<close>

text \<open>
  Fact. For timeouts up to 9223372036854 milliseconds the pop's context gets exactly that
  deadline, and no deadline for zero.
\<close>

lemma pop_timeout_in_range:
  assumes "0 \<le> ms" and "ms \<le> 9223372036854"
  shows "timeoutContext (popTimeout ms) = (if ms = 0 then None else Some (ms * 1000000))"
  using assms by (simp add: timeoutContext_def popTimeout_def millisecond_def i64_bounded)

lemma pop_timeout_in_range_witness: "timeoutContext (popTimeout 250) = Some 250000000"
  using pop_timeout_in_range [of 250] by simp

text \<open>
  Fact. Beyond that range the conversion to nanoseconds wraps: 9223372036855 milliseconds
  become no deadline at all, and 18446744073710 milliseconds become less than half a
  millisecond.
\<close>

lemma pop_timeout_wraps:
  "timeoutContext (popTimeout 9223372036855) = None
   \<and> timeoutContext (popTimeout 18446744073710) = Some 448384"
  by code_simp

text \<open>
  Property C21. A pop without a timeout is never cancelled: its context stays open whatever
  happens to the connection, even after the watcher has reported the peer gone, so it stays
  registered as a waiter.
\<close>

theorem pop_without_timeout_is_never_cancelled:
  assumes "execution daemon_init (dstep q) es d" and "handles d i (HPop cs None)"
  shows "ctx_of (dsys d) i = None
    \<and> (\<forall>w cs'. at (threads (dsys d) ! i) \<notin> {PopCancel w cs', PopTake w cs', PopPoll w cs'})"
proof -
  have i: "i < length (conns d)" "hnd (conns d ! i) = HPop cs None" using assms(2) by (simp_all add: handles_def)
  have d: "sys_inv (dsys d)" "agree d" using dsim.always [OF assms(1)] by (auto dest: simulated_inv)
  then have ctx: "ctx (threads (dsys d) ! i) = None" "i < length (threads (dsys d))"
    using i by (auto simp: agree_def fits_def)
  moreover have "\<not> needs_ctx (at (threads (dsys d) ! i))"
    using d(1) ctx nth_mem [OF ctx(2)] by (auto simp: sys_inv_def ctx_inv_def)
  ultimately show ?thesis by (auto simp: ctx_of_def)
qed

lemma dead_consumer_evaluated:
  "dleads quoted (daemon_start 4294967296) (take 6 dead_consumer_run)
     (\<lambda>es d. handles d 0 (HPop [''c''] None) \<and> gone (conns d ! 0))"
  by code_simp

lemma pop_without_timeout_is_never_cancelled_witness:
  "\<exists>es d. execution daemon_init (dstep quoted) es d \<and> handles d 0 (HPop [''c''] None) \<and> gone (conns d ! 0)
     \<and> ctx_of (dsys d) 0 = None"
proof (rule dleads_execution [OF dead_consumer_evaluated])
  fix es d
  assume "execution daemon_init (dstep quoted) es d" and "handles d 0 (HPop [''c''] None) \<and> gone (conns d ! 0)"
  with pop_without_timeout_is_never_cancelled [of quoted es d 0 "[''c'']"] show ?thesis by blast
qed (simp_all add: defaultMaxBytes_def)


end
