(* ===== verification/Duration.thy ===== *)
theory Duration
  imports GoStrings "HOL-Library.Log_Nat"
begin

text \<open>
  \<open>time.ParseDuration\<close> and \<open>time.Duration.Milliseconds\<close>, which the command line uses. A duration is
  its number of nanoseconds; the unsigned 64-bit sums of the parser are written out. Go converts the
  fraction of a number by \<open>float64\<close> arithmetic: \<open>float64\<close> below is its rounding (to 53 bits, ties to
  even) on rationals in the normal range, the only one a fraction can reach.
\<close>

section \<open>Rounding to float64\<close>

definition pow2 :: "int \<Rightarrow> rat" where
  "pow2 e = (if 0 \<le> e then 2 ^ nat e else 1 / 2 ^ nat (- e))"

definition roundHalfEven :: "rat \<Rightarrow> int" where
  "roundHalfEven x =
     (let f = \<lfloor>x\<rfloor>; r = x - of_int f
      in if r < 1 / 2 then f else if 1 / 2 < r then f + 1 else if even f then f else f + 1)"

definition float64 :: "rat \<Rightarrow> rat" where
  "float64 x =
     (if x \<le> 0 then 0
      else let (a, b) = quotient_of x;
               e0 = bitlen a - bitlen b;
               e = (if pow2 e0 \<le> x then e0 else e0 - 1);
               u = pow2 (e - 52)
           in of_int (roundHalfEven (x / u)) * u)"

section \<open>The parser\<close>

text \<open>\<open>leadingInt\<close>: the digits at the head of the string, \<open>None\<close> when they overflow.\<close>

fun leadingInt :: "int \<Rightarrow> string \<Rightarrow> (int \<times> string) option" where
  "leadingInt x [] = Some (x, [])"
| "leadingInt x (c # cs) =
     (case digit_val c of
        None \<Rightarrow> Some (x, c # cs)
      | Some d \<Rightarrow>
          if x > 2 ^ 63 div 10 then None
          else if x * 10 + int d > 2 ^ 63 then None
          else leadingInt (x * 10 + int d) cs)"

text \<open>\<open>leadingFraction\<close>: digits past the 63-bit range are skipped.\<close>

fun leadingFraction :: "int \<Rightarrow> rat \<Rightarrow> bool \<Rightarrow> string \<Rightarrow> int \<times> rat \<times> string" where
  "leadingFraction x scale overflow [] = (x, scale, [])"
| "leadingFraction x scale overflow (c # cs) =
     (case digit_val c of
        None \<Rightarrow> (x, scale, c # cs)
      | Some d \<Rightarrow>
          if overflow then leadingFraction x scale True cs
          else if x > (2 ^ 63 - 1) div 10 then leadingFraction x scale True cs
          else if x * 10 + int d > 2 ^ 63 then leadingFraction x scale True cs
          else leadingFraction (x * 10 + int d) (float64 (scale * 10)) False cs)"

definition unitMap :: "string \<Rightarrow> int option" where
  "unitMap u =
     (if u = ''ns'' then Some 1
      else if u = ''us'' \<or> u = [CHR 0xC2, CHR 0xB5, CHR ''s''] \<or> u = [CHR 0xCE, CHR 0xBC, CHR ''s'']
      then Some 1000
      else if u = ''ms'' then Some 1000000
      else if u = ''s'' then Some 1000000000
      else if u = ''m'' then Some 60000000000
      else if u = ''h'' then Some 3600000000000
      else None)"

definition numeric :: "char \<Rightarrow> bool" where
  "numeric c \<longleftrightarrow> c = CHR ''.'' \<or> digit_val c \<noteq> None"

text \<open>\<open>float64(f) * (float64(unit) / scale)\<close>, truncated to an integer.\<close>

definition fractionOf :: "int \<Rightarrow> int \<Rightarrow> rat \<Rightarrow> int" where
  "fractionOf f unit scale =
     \<lfloor>float64 (float64 (of_int f) * float64 (of_int unit / scale))\<rfloor>"

text \<open>One pass of the parser's loop: the nanoseconds of one number with its unit, and the rest.\<close>

definition durationPart :: "string \<Rightarrow> string \<Rightarrow> goerr + int \<times> string" where
  "durationPart orig s =
     (if s = [] \<or> \<not> numeric (hd s) then Inl (InvalidDuration orig)
      else (case leadingInt 0 s of
        None \<Rightarrow> Inl (InvalidDuration orig)
      | Some (v, s1) \<Rightarrow>
          let pre = (length s \<noteq> length s1);
              dot = (s1 \<noteq> [] \<and> hd s1 = CHR ''.'');
              (f, scale, s2) = (if dot then leadingFraction 0 1 False (tl s1) else (0, 1, s1));
              post = (dot \<and> length (tl s1) \<noteq> length s2)
          in if \<not> pre \<and> \<not> post then Inl (InvalidDuration orig)
             else let u = takeWhile (\<lambda>c. \<not> numeric c) s2; s3 = dropWhile (\<lambda>c. \<not> numeric c) s2 in
               if u = [] then Inl (MissingUnit orig)
               else (case unitMap u of
                 None \<Rightarrow> Inl (UnknownUnit u orig)
               | Some unit \<Rightarrow>
                   if v > 2 ^ 63 div unit then Inl (InvalidDuration orig)
                   else let v1 = v * unit;
                            v2 = (if f > 0 then (v1 + fractionOf f unit scale) mod 2 ^ 64 else v1)
                        in if f > 0 \<and> v2 > 2 ^ 63 then Inl (InvalidDuration orig)
                           else Inr (v2, s3))))"

text \<open>Each pass consumes at least one character, so as many passes as characters are enough.\<close>

fun durationLoop :: "nat \<Rightarrow> string \<Rightarrow> int \<Rightarrow> string \<Rightarrow> (goerr + int) option" where
  "durationLoop fuel orig d [] = Some (Inr d)"
| "durationLoop 0 orig d (c # cs) = None"
| "durationLoop (Suc fuel) orig d (c # cs) =
     (case durationPart orig (c # cs) of
        Inl e \<Rightarrow> Some (Inl e)
      | Inr (v, rest) \<Rightarrow>
          let d1 = (d + v) mod 2 ^ 64 in
          if d1 > 2 ^ 63 then Some (Inl (InvalidDuration orig)) else durationLoop fuel orig d1 rest)"

definition parseDuration :: "string \<Rightarrow> goerr + int" where
  "parseDuration orig =
     (let neg = (orig \<noteq> [] \<and> hd orig = CHR ''-'');
          s = (if orig \<noteq> [] \<and> (hd orig = CHR ''-'' \<or> hd orig = CHR ''+'') then tl orig else orig)
      in if s = ''0'' then Inr 0
         else if s = [] then Inl (InvalidDuration orig)
         else (case durationLoop (length s) orig 0 s of
                 None \<Rightarrow> Inl (InvalidDuration orig)
               | Some (Inl e) \<Rightarrow> Inl e
               | Some (Inr d) \<Rightarrow>
                   if neg then Inr (i64 (- d))
                   else if d > 2 ^ 63 - 1 then Inl (InvalidDuration orig)
                   else Inr d))"

text \<open>\<open>Duration.Milliseconds\<close>: Go's division truncates toward zero.\<close>

definition milliseconds :: "int \<Rightarrow> int" where
  "milliseconds d = (if d < 0 then - ((- d) div 1000000) else d div 1000000)"

section \<open>The loop ends within its fuel\<close>

lemma leadingInt_shorter: "leadingInt x s = Some (v, r) \<Longrightarrow> length r \<le> length s"
  by (induction x s rule: leadingInt.induct) (fastforce split: option.splits if_splits)+

lemma leadingFraction_shorter: "leadingFraction x sc ov s = (f, sc', r) \<Longrightarrow> length r \<le> length s"
  by (induction x sc ov s rule: leadingFraction.induct) (fastforce split: option.splits if_splits)+

lemma durationPart_shorter:
  assumes "durationPart orig s = Inr (v, rest)"
  shows "length rest < length s"
proof -
  from assms obtain n s1 f scale s2 where
    s1: "leadingInt 0 s = Some (n, s1)" and s2: "s2 = s1 \<or> leadingFraction 0 1 False (tl s1) = (f, scale, s2)"
    and u: "takeWhile (\<lambda>c. \<not> numeric c) s2 \<noteq> []" and rest: "rest = dropWhile (\<lambda>c. \<not> numeric c) s2"
    by (auto simp: durationPart_def Let_def split: if_splits option.splits prod.splits)
  have "length s2 \<le> length s"
    using leadingInt_shorter [OF s1] s2 leadingFraction_shorter [of 0 1 False "tl s1" f scale s2] by auto
  moreover have "length rest < length s2"
    using u rest by (cases s2) (auto simp: length_dropWhile_le less_Suc_eq_le split: if_splits)
  ultimately show ?thesis by linarith
qed

lemma durationLoop_ends: "length s \<le> fuel \<Longrightarrow> durationLoop fuel orig d s \<noteq> None"
proof (induction fuel orig d s rule: durationLoop.induct)
  case (3 fuel orig d c cs)
  show ?case
  proof (cases "durationPart orig (c # cs)")
    case (Inl e)
    then show ?thesis by simp
  next
    case (Inr vr)
    then obtain v rest where vr: "durationPart orig (c # cs) = Inr (v, rest)" by (cases vr) auto
    from durationPart_shorter [OF this] 3(2) have "length rest \<le> fuel" by simp
    with 3(1) [OF vr] vr show ?thesis by (auto simp: Let_def)
  qed
qed auto

section \<open>Whole numbers\<close>

lemma leadingInt_dec:
  "n < 2 ^ 63 \<Longrightarrow> u = [] \<or> digit_val (hd u) = None \<Longrightarrow> leadingInt 0 (dec n @ u) = Some (int n, u)"
proof (induction n arbitrary: u rule: dec.induct)
  case (1 n)
  have tail: "leadingInt m u = Some (m, u)" for m using 1(3) by (cases u) auto
  show ?case
  proof (cases "n < 10")
    case True
    then show ?thesis by (subst dec.simps) (simp add: digit_val_digit_char tail)
  next
    case False
    have snoc: "leadingInt m (s @ t) = leadingInt k t" if "leadingInt m s = Some (k, [])" for m k s t
      using that by (induction m s rule: leadingInt.induct) (auto split: option.splits if_splits)
    have "leadingInt 0 (dec (n div 10) @ []) = Some (int (n div 10), [])"
      using False 1(2) by (intro 1(1)) auto
    then have "leadingInt 0 ((dec (n div 10) @ [digit_char (n mod 10)]) @ u)
        = leadingInt (int (n div 10)) (digit_char (n mod 10) # u)"
      using snoc [of 0 "dec (n div 10)" "int (n div 10)"] by simp
    moreover note split_last_digit [of n]
    ultimately show ?thesis
      using False 1(2) by (subst dec.simps) (simp add: digit_val_digit_char tail)
  qed
qed

lemma parseDuration_whole:
  assumes u: "unitMap u = Some unit" and plain: "\<forall>c \<in> set u. \<not> numeric c" and n: "int n * unit < 2 ^ 63"
  shows "parseDuration (dec n @ u) = Inr (int n * unit)"
proof -
  let ?s = "dec n @ u"
  have pos: "1 \<le> unit" "u \<noteq> []" using u by (auto simp: unitMap_def split: if_splits)
  obtain c cs where d: "dec n = c # cs" using dec_nonempty [of n] by (cases "dec n") auto
  then have c: "digit_val c \<noteq> None" using dec_digits [of c n] by simp
  then have nosign: "c \<noteq> CHR ''-''" "c \<noteq> CHR ''+''" by (auto simp: digit_val_def)
  have "int n * 1 \<le> int n * unit" using pos by (intro mult_left_mono) auto
  with n have "n < 2 ^ 63" by simp
  moreover have hd: "digit_val (hd u) = None" "hd u \<noteq> CHR ''.''" using plain pos by (auto simp: numeric_def)
  ultimately have li: "leadingInt 0 ?s = Some (int n, u)" using leadingInt_dec by blast
  have "int n * unit div unit \<le> 2 ^ 63 div unit" using n pos by (intro zdiv_mono1) auto
  then have fit: "\<not> 2 ^ 63 div unit < int n" using pos by simp
  have split: "takeWhile (\<lambda>c. \<not> numeric c) u = u" "dropWhile (\<lambda>c. \<not> numeric c) u = []"
    using plain by simp_all
  have "?s \<noteq> []" "numeric (hd ?s)" "length ?s \<noteq> length u" using d c by (auto simp: numeric_def)
  then have part: "durationPart ?s ?s = Inr (int n * unit, [])"
    unfolding durationPart_def li using hd u pos fit by (simp add: Let_def split)
  have loop: "durationLoop (length ?s) ?s 0 ?s = Some (Inr (int n * unit))"
    using part n pos d by (simp add: Let_def)
  have "?s \<noteq> ''0''" "?s \<noteq> []" "hd ?s \<noteq> CHR ''-''" "hd ?s \<noteq> CHR ''+''" using d pos nosign by (cases cs; auto)+
  with loop n show ?thesis unfolding parseDuration_def by (simp only: Let_def) simp
qed

end
