(* ===== verification/Cli.thy ===== *)
theory Cli
  imports Protocol Duration
begin

text \<open>
  The command line (\<open>main.go\<close>): the environment, paths, the option parsers of the subcommands, and
  the subcommands themselves over the result of the round trip to the daemon. A subcommand answers
  its exit code and what it wrote to standard output and standard error. The parameter \<open>q\<close> is the
  quoting of \<open>%q\<close>.
\<close>

section \<open>Environment and paths\<close>

text \<open>\<open>os.Getenv\<close> answers the empty string for a variable that is not set.\<close>

record env =
  envSocket :: string
  envGBytes :: string
  envRuntimeDir :: string
  envUid :: nat

fun joinWith :: "string \<Rightarrow> string list \<Rightarrow> string" where
  "joinWith sep [] = []"
| "joinWith sep [p] = p"
| "joinWith sep (p # ps) = p @ sep @ joinWith sep ps"

text \<open>\<open>path/filepath\<close>: \<open>Clean\<close> on its slash-separated elements, last element first, and \<open>Join\<close>.\<close>

fun cleanParts :: "bool \<Rightarrow> string list \<Rightarrow> string list \<Rightarrow> string list" where
  "cleanParts rooted acc [] = acc"
| "cleanParts rooted acc (p # ps) =
     (if p = [] \<or> p = ''.'' then cleanParts rooted acc ps
      else if p = ''..'' then
        (case acc of
           [] \<Rightarrow> cleanParts rooted (if rooted then [] else [p]) ps
         | t # ts \<Rightarrow> cleanParts rooted (if t = ''..'' then p # acc else ts) ps)
      else cleanParts rooted (p # acc) ps)"

definition cleanPath :: "string \<Rightarrow> string" where
  "cleanPath s =
     (let rooted = (s \<noteq> [] \<and> hd s = CHR ''/'');
          body = joinWith ''/'' (rev (cleanParts rooted [] (splitOn CHR ''/'' s)))
      in if rooted then CHR ''/'' # body else if body = [] then ''.'' else body)"

definition joinPath :: "string list \<Rightarrow> string" where
  "joinPath elems =
     (case dropWhile (\<lambda>e. e = []) elems of
        [] \<Rightarrow> []
      | es \<Rightarrow> cleanPath (joinWith ''/'' es))"

definition defaultSocketPath :: "env \<Rightarrow> string" where
  "defaultSocketPath env =
     (if envSocket env \<noteq> [] then envSocket env
      else joinPath [''/run/user'', dec (envUid env), ''atomic-queue'', ''atomic-queue.sock''])"

definition socketSuggestion :: "env \<Rightarrow> string \<Rightarrow> string" where
  "socketSuggestion env current =
     (if envRuntimeDir env = [] then []
      else let hint = joinPath [envRuntimeDir env, ''atomic-queue'', ''atomic-queue.sock'']
           in if hint = current then [] else hint)"

definition suggestedSocketPath :: "env \<Rightarrow> string \<Rightarrow> string" where
  "suggestedSocketPath env current =
     (let hint = socketSuggestion env current in if hint \<noteq> [] then hint else current)"

section \<open>Options\<close>

definition trimOption :: "string \<Rightarrow> string \<Rightarrow> string \<times> bool" where
  "trimOption arg name = cutPrefix arg (name @ ''='')"

definition hasLongOption :: "string \<Rightarrow> string \<Rightarrow> bool" where
  "hasLongOption arg name = snd (trimOption arg name)"

definition parsePositiveInt64 :: "string \<Rightarrow> string \<Rightarrow> goerr + int" where
  "parsePositiveInt64 value name =
     (case parseInt ''ParseInt'' value of
        Inl err \<Rightarrow> Inl (Wrap (''invalid '' @ name) err)
      | Inr n \<Rightarrow> if n \<le> 0 then Inl (Text (name @ '' must be > 0'')) else Inr n)"

definition missingValue :: "string \<Rightarrow> goerr" where
  "missingValue name = Text (''missing value for '' @ name)"

section \<open>serve\<close>

definition defaultMaxQueuedGBytes :: int where
  "defaultMaxQueuedGBytes = 4"

fun serveArgs :: "(string \<Rightarrow> string) \<Rightarrow> string \<Rightarrow> int \<Rightarrow> string list \<Rightarrow> goerr + string \<times> int" where
  "serveArgs q socket gbytes [] = Inr (socket, gbytes)"
| "serveArgs q socket gbytes (arg # rest) =
     (if arg = ''--socket'' then
        (case rest of
           [] \<Rightarrow> Inl (missingValue ''--socket'')
         | value # others \<Rightarrow> serveArgs q value gbytes others)
      else if hasLongOption arg ''--socket'' then
        serveArgs q (fst (trimOption arg ''--socket'')) gbytes rest
      else if arg = ''--max-queued-gbytes'' then
        (case rest of
           [] \<Rightarrow> Inl (missingValue ''--max-queued-gbytes'')
         | value # others \<Rightarrow>
             (case parsePositiveInt64 value ''max-queued-gbytes'' of
                Inl err \<Rightarrow> Inl err
              | Inr n \<Rightarrow> serveArgs q socket n others))
      else if hasLongOption arg ''--max-queued-gbytes'' then
        (case parsePositiveInt64 (fst (trimOption arg ''--max-queued-gbytes'')) ''max-queued-gbytes'' of
           Inl err \<Rightarrow> Inl err
         | Inr n \<Rightarrow> serveArgs q socket n rest)
      else Inl (Text (''unknown serve option '' @ q arg)))"

definition parseServeArgs :: "(string \<Rightarrow> string) \<Rightarrow> env \<Rightarrow> string list \<Rightarrow> goerr + string \<times> int" where
  "parseServeArgs q env args =
     (case (if envGBytes env \<noteq> []
            then parsePositiveInt64 (envGBytes env) ''ATOMIC_QUEUE_MAX_QUEUED_GBYTES''
            else Inr defaultMaxQueuedGBytes) of
        Inl err \<Rightarrow> Inl err
      | Inr gbytes0 \<Rightarrow>
          (case serveArgs q (defaultSocketPath env) gbytes0 args of
             Inl err \<Rightarrow> Inl err
           | Inr (socket, gbytes) \<Rightarrow>
               let maxQueuedBytes = i64 (gbytes * 2 ^ 30) in
               if maxQueuedBytes < defaultMaxBytes
               then Inl (Text (''--max-queued-gbytes must be >= 1 (per-message cap is ''
                       @ dec_int defaultMaxBytes @ '' bytes)''))
               else Inr (socket, maxQueuedBytes)))"

section \<open>push\<close>

fun pushArgs ::
    "string \<Rightarrow> string list \<Rightarrow> bool \<Rightarrow> string list \<Rightarrow> goerr + string \<times> string list \<times> bool" where
  "pushArgs socket positionals readStdin [] = Inr (socket, positionals, readStdin)"
| "pushArgs socket positionals readStdin (arg # rest) =
     (if arg = ''--socket'' then
        (case rest of
           [] \<Rightarrow> Inl (missingValue ''--socket'')
         | value # others \<Rightarrow> pushArgs value positionals readStdin others)
      else if arg = ''--stdin'' then pushArgs socket positionals True rest
      else if hasLongOption arg ''--socket'' then
        pushArgs (fst (trimOption arg ''--socket'')) positionals readStdin rest
      else pushArgs socket (positionals @ [arg]) readStdin rest)"

definition parsePushArgs :: "env \<Rightarrow> string list \<Rightarrow> goerr + string \<times> string list \<times> bool" where
  "parsePushArgs env args = pushArgs (defaultSocketPath env) [] False args"

section \<open>pop\<close>

text \<open>\<open>parseArgs\<close>; its two last branches do the same, as in the code.\<close>

fun genericArgs :: "bool \<Rightarrow> string \<Rightarrow> string list \<Rightarrow> string list \<Rightarrow> goerr + string \<times> string list" where
  "genericArgs allowTimeout socket positionals [] = Inr (socket, positionals)"
| "genericArgs allowTimeout socket positionals (arg # rest) =
     (if arg = ''--socket'' then
        (case rest of
           [] \<Rightarrow> Inl (missingValue ''--socket'')
         | value # others \<Rightarrow> genericArgs allowTimeout value positionals others)
      else if hasLongOption arg ''--socket'' then
        genericArgs allowTimeout (fst (trimOption arg ''--socket'')) positionals rest
      else if allowTimeout \<and> (arg = ''--timeout'' \<or> hasLongOption arg ''--timeout'') then
        genericArgs allowTimeout socket (positionals @ [arg]) rest
      else genericArgs allowTimeout socket (positionals @ [arg]) rest)"

definition parseArgs :: "env \<Rightarrow> string list \<Rightarrow> bool \<Rightarrow> goerr + string \<times> string list" where
  "parseArgs env args allowTimeout = genericArgs allowTimeout (defaultSocketPath env) [] args"

fun timeoutArgs :: "int \<Rightarrow> string list \<Rightarrow> string list \<Rightarrow> goerr + int \<times> string list" where
  "timeoutArgs timeout filtered [] = Inr (timeout, filtered)"
| "timeoutArgs timeout filtered (arg # rest) =
     (if arg = ''--timeout'' then
        (case rest of
           [] \<Rightarrow> Inl (missingValue ''--timeout'')
         | value # others \<Rightarrow>
             (case parseDuration value of
                Inl err \<Rightarrow> Inl (Wrap ''invalid timeout'' err)
              | Inr d \<Rightarrow> timeoutArgs d filtered others))
      else if hasLongOption arg ''--timeout'' then
        (case parseDuration (fst (trimOption arg ''--timeout'')) of
           Inl err \<Rightarrow> Inl (Wrap ''invalid timeout'' err)
         | Inr d \<Rightarrow> timeoutArgs d filtered rest)
      else timeoutArgs timeout (filtered @ [arg]) rest)"

definition parsePopArgs :: "env \<Rightarrow> string list \<Rightarrow> goerr + string \<times> string list \<times> int" where
  "parsePopArgs env args =
     (case parseArgs env args True of
        Inl err \<Rightarrow> Inl err
      | Inr (socket, positionals) \<Rightarrow>
          (case timeoutArgs 0 [] positionals of
             Inl err \<Rightarrow> Inl err
           | Inr (timeout, filtered) \<Rightarrow>
               if timeout < 0 then Inl (Text ''timeout must be >= 0'')
               else Inr (socket, filtered, timeout)))"

section \<open>Results of a subcommand\<close>

record result =
  code :: int
  stdout :: bytes
  stderr :: string

definition exitOK :: int where "exitOK = 0"
definition exitRuntime :: int where "exitRuntime = 1"
definition exitTimeout :: int where "exitTimeout = 2"
definition exitUsage :: int where "exitUsage = 64"

definition line :: "string \<Rightarrow> string" where
  "line s = s @ [CHR 0x0A]"

definition pushUsage :: string where
  "pushUsage = ''usage: atomic-queue push [--socket path] [--stdin] channel [payload]''"

definition popUsage :: string where
  "popUsage = ''usage: atomic-queue pop [--socket path] [--timeout d] channel...''"

definition usageLine :: "string \<Rightarrow> string" where
  "usageLine cmd =
     (if cmd = ''push'' then line pushUsage
      else if cmd = ''pop'' then line popUsage
      else if cmd = ''serve'' then
        line ''usage: atomic-queue serve [--socket path] [--max-queued-gbytes N]''
      else if cmd = ''stress'' then
        line ''usage: atomic-queue stress [--socket path] [--duration 10s] [--threads 1000] [--publishers n] [--consumers n] [--channels a,b,c] [--pop-timeout 200ms] [--payload-size 128] [--format text|json]''
      else [])"

definition usageError :: "(string \<Rightarrow> string) \<Rightarrow> string \<Rightarrow> goerr \<Rightarrow> result" where
  "usageError q cmd err =
     \<lparr>code = exitUsage, stdout = [], stderr = line (error_text q err) @ usageLine cmd\<rparr>"

definition runtimeError :: "(string \<Rightarrow> string) \<Rightarrow> goerr \<Rightarrow> result" where
  "runtimeError q err = \<lparr>code = exitRuntime, stdout = [], stderr = line (error_text q err)\<rparr>"

definition clientError :: "(string \<Rightarrow> string) \<Rightarrow> goerr \<Rightarrow> result" where
  "clientError q err =
     (if go_is err ErrTimeout
      then \<lparr>code = exitTimeout, stdout = [], stderr = line (error_text q err)\<rparr>
      else \<lparr>code = exitRuntime, stdout = [], stderr = line (error_text q err)\<rparr>)"

definition success :: "bytes \<Rightarrow> result" where
  "success out = \<lparr>code = exitOK, stdout = out, stderr = []\<rparr>"

section \<open>Subcommands\<close>

text \<open>
  \<open>stdin\<close> is the result of reading standard input, \<open>trip\<close> the round trip to the daemon (\<open>Client\<close>),
  \<open>outErr\<close> the error of writing standard output.
\<close>

definition runPush ::
    "(string \<Rightarrow> string) \<Rightarrow> env \<Rightarrow> goerr + bytes \<Rightarrow> (string \<Rightarrow> request \<Rightarrow> goerr + response) \<Rightarrow> string list \<Rightarrow> result" where
  "runPush q env stdin trip args =
     (case parsePushArgs env args of
        Inl err \<Rightarrow> usageError q ''push'' err
      | Inr (socket, positionals, readStdin) \<Rightarrow>
          if length positionals \<noteq> (if readStdin then 1 else 2)
          then usageError q ''push'' (Text pushUsage)
          else
            (case (if readStdin then stdin else Inr (to_bytes (positionals ! 1))) of
               Inl err \<Rightarrow> runtimeError q (Wrap ''read stdin'' err)
             | Inr payload \<Rightarrow>
                 (case validateChannel (positionals ! 0) of
                    Some err \<Rightarrow> runtimeError q err
                  | None \<Rightarrow>
                      (case validatePayload payload defaultMaxBytes of
                         Some err \<Rightarrow> runtimeError q err
                       | None \<Rightarrow>
                           (case trip socket \<lparr>reqOp = ''push'', reqChannels = [positionals ! 0],
                                   reqPayload = payload, reqTimeoutMS = 0\<rparr> of
                              Inl err \<Rightarrow> clientError q err
                            | Inr resp \<Rightarrow>
                                if \<not> respOK resp then runtimeError q (Text (respError resp))
                                else success [])))))"

fun firstInvalidChannel :: "string list \<Rightarrow> goerr option" where
  "firstInvalidChannel [] = None"
| "firstInvalidChannel (c # cs) =
     (case validateChannel c of Some err \<Rightarrow> Some err | None \<Rightarrow> firstInvalidChannel cs)"

definition popRequest :: "string list \<Rightarrow> int \<Rightarrow> request" where
  "popRequest channels timeout =
     \<lparr>reqOp = ''pop'', reqChannels = channels, reqPayload = [],
      reqTimeoutMS = (if timeout > 0 then milliseconds timeout else 0)\<rparr>"

definition runPop ::
    "(string \<Rightarrow> string) \<Rightarrow> env \<Rightarrow> (string \<Rightarrow> request \<Rightarrow> goerr + response) \<Rightarrow> goerr option \<Rightarrow> string list \<Rightarrow> result" where
  "runPop q env trip outErr args =
     (case parsePopArgs env args of
        Inl err \<Rightarrow> usageError q ''pop'' err
      | Inr (socket, positionals, timeout) \<Rightarrow>
          if positionals = [] then usageError q ''pop'' (Text popUsage)
          else
            (case firstInvalidChannel positionals of
               Some err \<Rightarrow> runtimeError q err
             | None \<Rightarrow>
                 (case trip socket (popRequest positionals timeout) of
                    Inl err \<Rightarrow> clientError q err
                  | Inr resp \<Rightarrow>
                      if \<not> respOK resp then
                        if respError resp = error_text q ErrTimeout
                        then \<lparr>code = exitTimeout, stdout = [], stderr = line (respError resp)\<rparr>
                        else runtimeError q (Text (respError resp))
                      else
                        (case outErr of
                           Some err \<Rightarrow> runtimeError q (Wrap ''write stdout'' err)
                         | None \<Rightarrow> success (respPayload resp)))))"

text \<open>\<open>served\<close> is how \<open>serve\<close> returned on the socket and the cap.\<close>

definition runServe ::
    "(string \<Rightarrow> string) \<Rightarrow> env \<Rightarrow> (string \<Rightarrow> int \<Rightarrow> goerr option) \<Rightarrow> string list \<Rightarrow> result" where
  "runServe q env served args =
     (case parseServeArgs q env args of
        Inl err \<Rightarrow> usageError q ''serve'' err
      | Inr (socket, maxQueuedBytes) \<Rightarrow>
          (case served socket maxQueuedBytes of
             None \<Rightarrow> success []
           | Some err \<Rightarrow>
               let hint = socketSuggestion env socket in
               if hint \<noteq> [] then
                 runtimeError q (Text (error_text q err @ [CHR 0x0A] @ ''try:'' @ [CHR 0x0A]
                   @ ''  atomic-queue serve --socket '' @ q hint @ [CHR 0x0A] @ ''or:'' @ [CHR 0x0A]
                   @ ''  ATOMIC_QUEUE_SOCKET='' @ q hint @ '' atomic-queue serve''))
               else runtimeError q err))"

definition usageText :: "env \<Rightarrow> string" where
  "usageText env =
     concat (map line
       [''atomic-queue: small local message queue'', '''', ''Usage:'',
        ''  atomic-queue'', ''  atomic-queue help'',
        ''  atomic-queue push channel '' @ [CHR 0x27] @ ''{'' @ [CHR 0x22] @ ''foo'' @ [CHR 0x22] @ '':123}'' @ [CHR 0x27],
        ''  cat file.msgpack | atomic-queue push --stdin channel'', ''  atomic-queue pop channel'',
        ''  atomic-queue pop channel1 channel2 --timeout 1500ms'', ''  atomic-queue serve'',
        ''  atomic-queue stress --duration 10s --threads 1000'',
        ''  atomic-queue stress --duration 10s --publishers 500 --consumers 500 --format json'', '''',
        ''Default socket: '' @ defaultSocketPath env,
        ''Override socket: ATOMIC_QUEUE_SOCKET=/path/to.sock or --socket /path/to.sock'',
        ''Override queue cap: ATOMIC_QUEUE_MAX_QUEUED_GBYTES=<GiB> or --max-queued-gbytes <GiB>'',
        ''GitHub: https://github.com/parf/atomic-queue''])"

text \<open>\<open>run\<close>: the subcommands as arguments.\<close>

definition run ::
    "(string \<Rightarrow> string) \<Rightarrow> env \<Rightarrow> (string list \<Rightarrow> result) \<Rightarrow> (string list \<Rightarrow> result)
     \<Rightarrow> (string list \<Rightarrow> result) \<Rightarrow> (string list \<Rightarrow> result) \<Rightarrow> string list \<Rightarrow> result" where
  "run q env push pop serve stress args =
     (case args of
        [] \<Rightarrow> success (to_bytes (usageText env))
      | cmd # rest \<Rightarrow>
          if cmd = ''push'' then push rest
          else if cmd = ''pop'' then pop rest
          else if cmd = ''serve'' then serve rest
          else if cmd = ''stress'' then stress rest
          else if cmd = ''help'' \<or> cmd = ''-h'' \<or> cmd = ''--help'' then success (to_bytes (usageText env))
          else \<lparr>code = exitUsage, stdout = [],
                stderr = line (''unknown subcommand '' @ q cmd) @ usageText env\<rparr>)"

end
