(* ===== verification/CliProps.thy ===== *)
theory CliProps
  imports Cli Server
begin

text \<open>
  The properties of the command line: the cap \<open>serve\<close> starts the daemon with, what the option
  parsers make of any arrangement of options, and what becomes of a timeout on its way from the
  command line to the deadline of the daemon's context.
\<close>

section \<open>The cap of the daemon\<close>

lemma i64_multiple: "2 ^ 30 dvd i64 (g * 2 ^ 30)"
proof -
  have "(2::int) ^ 30 dvd 2 ^ 64" by (rule le_imp_power_dvd) simp
  then have "2 ^ 30 dvd (g * 2 ^ 30) mod 2 ^ 64" by (intro dvd_mod) simp_all
  moreover have "(2::int) ^ 30 dvd 2 ^ Suc 63 * b" for b by (rule dvd_mult2) (rule le_imp_power_dvd, simp)
  ultimately show ?thesis
    unfolding i64_def signed_take_bit_eq_take_bit_minus take_bit_eq_mod by (intro dvd_diff) simp_all
qed

text \<open>
  Property C28. Whatever the environment and the arguments, the cap that serve starts the daemon
  with is at least one message's maximal size and leaves the broker's 64-bit sums inside their
  range: every daemon the command line starts is one the broker's theorems are about.
\<close>

theorem serve_cap_is_safe:
  assumes "parseServeArgs q env args = Inr (socket, cap)"
  shows "defaultMaxBytes \<le> cap \<and> 2 ^ 30 dvd cap \<and> daemon_init (daemon_start cap)"
proof -
  from assms obtain g where cap: "cap = i64 (g * 2 ^ 30)" "\<not> cap < defaultMaxBytes"
    by (auto simp: parseServeArgs_def Let_def split: sum.splits if_splits)
  have "cap < 2 ^ 63" using in_i64_i64 [of "g * 2 ^ 30"] cap by (simp add: in_i64_def)
  moreover have dvd: "2 ^ 30 dvd cap" using cap i64_multiple by simp
  then obtain k where k: "cap = 2 ^ 30 * k" by (elim dvdE)
  ultimately have "k < 2 ^ 33" by simp
  then have "cap \<le> 2 ^ 30 * (2 ^ 33 - 1)" using k by simp
  then have "cap + defaultMaxBytes < 2 ^ 63" by (simp add: defaultMaxBytes_def)
  with cap(2) dvd show ?thesis
    unfolding daemon_init_def by (auto simp: defaultMaxBytes_def intro!: exI [of _ cap])
qed

definition plain_env :: env where
  "plain_env = \<lparr>envSocket = ''/tmp/q.sock'', envGBytes = [], envRuntimeDir = [], envUid = 1000\<rparr>"

lemma serve_cap_is_safe_witness: "daemon_init (daemon_start 2147483648)"
proof -
  have "parseServeArgs id plain_env [''--max-queued-gbytes=2'', ''--socket'', ''/s''] = Inr (''/s'', 2147483648)"
    by code_simp
  then show ?thesis using serve_cap_is_safe by blast
qed

text \<open>
  Fact. The shift from GiB to bytes wraps: 17179869185 GiB are accepted and become a cap
  of one GiB, the same as one GiB.
\<close>

lemma serve_cap_wraps:
  "parseServeArgs id plain_env [''--max-queued-gbytes'', ''17179869185''] = Inr (''/tmp/q.sock'', 1073741824)
   \<and> parseServeArgs id plain_env [''--max-queued-gbytes'', ''1''] = Inr (''/tmp/q.sock'', 1073741824)"
  by code_simp

section \<open>Options in any order\<close>

datatype token =
    TChannel string
  | TSocket string
  | TSocketEq string
  | TTimeout string
  | TTimeoutEq string

fun token_args :: "token \<Rightarrow> string list" where
  "token_args (TChannel c) = [c]"
| "token_args (TSocket v) = [''--socket'', v]"
| "token_args (TSocketEq v) = [''--socket='' @ v]"
| "token_args (TTimeout v) = [''--timeout'', v]"
| "token_args (TTimeoutEq v) = [''--timeout='' @ v]"

fun timeout_args :: "token \<Rightarrow> string list" where
  "timeout_args (TSocket v) = []"
| "timeout_args (TSocketEq v) = []"
| "timeout_args t = token_args t"

fun channel_of :: "token \<Rightarrow> string list" where
  "channel_of (TChannel c) = [c]"
| "channel_of _ = []"

fun usable :: "token \<Rightarrow> bool" where
  "usable (TChannel c) = valid_channel c"
| "usable (TTimeout v) = (\<not> isl (parseDuration v))"
| "usable (TTimeoutEq v) = (\<not> isl (parseDuration v))"
| "usable _ = True"

fun last_socket :: "string \<Rightarrow> token list \<Rightarrow> string" where
  "last_socket s [] = s"
| "last_socket s (TSocket v # ts) = last_socket v ts"
| "last_socket s (TSocketEq v # ts) = last_socket v ts"
| "last_socket s (_ # ts) = last_socket s ts"

fun last_timeout :: "int \<Rightarrow> token list \<Rightarrow> int" where
  "last_timeout d [] = d"
| "last_timeout d (TTimeout v # ts) = last_timeout (projr (parseDuration v)) ts"
| "last_timeout d (TTimeoutEq v # ts) = last_timeout (projr (parseDuration v)) ts"
| "last_timeout d (_ # ts) = last_timeout d ts"

definition option_like :: "string \<Rightarrow> bool" where
  "option_like s \<longleftrightarrow> take 2 s = ''--''"

lemma option_like_simps [simp]: "option_like (CHR ''-'' # CHR ''-'' # s)"
  by (simp add: option_like_def)

lemma hasLongOption_like: "hasLongOption s (CHR ''-'' # CHR ''-'' # n) \<Longrightarrow> option_like s"
  by (cases "trimOption s (CHR ''-'' # CHR ''-'' # n)")
     (auto simp: hasLongOption_def trimOption_def cutPrefix_True)

lemma not_option:
  assumes "\<not> option_like s"
  shows "s \<noteq> ''--socket'' \<and> s \<noteq> ''--timeout'' \<and> \<not> hasLongOption s ''--socket'' \<and> \<not> hasLongOption s ''--timeout''"
  using assms hasLongOption_like [of s] by auto

lemma channel_plain: "valid_channel c \<Longrightarrow> \<not> option_like c"
  by (cases c) (auto simp: valid_channel_def alnum_def option_like_def)

lemma duration_plain: "\<not> isl (parseDuration v) \<Longrightarrow> \<not> option_like v"
proof
  assume ok: "\<not> isl (parseDuration v)" and "option_like v"
  then obtain r where "v = CHR ''-'' # CHR ''-'' # r"
    by (cases v; cases "tl v") (auto simp: option_like_def)
  with ok show False by (simp add: parseDuration_def durationPart_def numeric_def digit_val_def Let_def)
qed

lemma genericArgs_tokens:
  "\<forall>t \<in> set ts. usable t \<Longrightarrow>
     genericArgs True s pos (concat (map token_args ts)) = Inr (last_socket s ts, pos @ concat (map timeout_args ts))"
proof (induction ts arbitrary: s pos)
  case Nil
  then show ?case by simp
next
  case (Cons t ts)
  show ?case
  proof (cases t)
    case (TChannel c)
    with Cons not_option [OF channel_plain, of c] show ?thesis by simp
  next
    case (TTimeout v)
    moreover have "\<not> hasLongOption ''--timeout'' ''--socket''"
      by (simp add: hasLongOption_def trimOption_def cutPrefix_def)
    ultimately show ?thesis using Cons not_option [OF duration_plain, of v] by simp
  qed (use Cons in \<open>simp_all add: hasLongOption_def trimOption_def cutPrefix_def\<close>)
qed

lemma timeoutArgs_tokens:
  "\<forall>t \<in> set ts. usable t \<Longrightarrow>
     timeoutArgs d filtered (concat (map timeout_args ts)) = Inr (last_timeout d ts, filtered @ concat (map channel_of ts))"
proof (induction ts arbitrary: d filtered)
  case Nil
  then show ?case by simp
next
  case (Cons t ts)
  show ?case
  proof (cases t)
    case (TChannel c)
    with Cons not_option [OF channel_plain, of c] show ?thesis by simp
  next
    case (TTimeout v)
    with Cons show ?thesis by (cases "parseDuration v") simp_all
  next
    case (TTimeoutEq v)
    with Cons show ?thesis
      by (cases "parseDuration v") (simp_all add: hasLongOption_def trimOption_def cutPrefix_def)
  qed (use Cons in simp_all)
qed

text \<open>
  Property C29. Channels and options of pop can be given in any order and any form: the channels
  come out in order, and the last socket and the last timeout count.
\<close>

theorem pop_options_in_any_order:
  assumes "\<forall>t \<in> set ts. usable t" and "0 \<le> last_timeout 0 ts"
  shows "parsePopArgs env (concat (map token_args ts))
    = Inr (last_socket (defaultSocketPath env) ts, concat (map channel_of ts), last_timeout 0 ts)"
  using assms genericArgs_tokens [OF assms(1)] timeoutArgs_tokens [OF assms(1)]
  by (simp add: parsePopArgs_def parseArgs_def)

lemma pop_options_in_any_order_witness:
  "parsePopArgs plain_env [''a'', ''--timeout=1.5s'', ''b'', ''--socket'', ''/s'', ''--timeout'', ''2ms'']
    = Inr (''/s'', [''a'', ''b''], 2000000)"
proof -
  let ?ts = "[TChannel ''a'', TTimeoutEq ''1.5s'', TChannel ''b'', TSocket ''/s'', TTimeout ''2ms'']"
  have d: "parseDuration ''1.5s'' = Inr 1500000000" "parseDuration ''2ms'' = Inr 2000000" by code_simp+
  have "\<forall>t \<in> set ?ts. usable t" by (simp add: d valid_channel_def alnum_def)
  from pop_options_in_any_order [OF this, of plain_env] show ?thesis by (simp add: d)
qed

section \<open>A timeout, from the command line to the daemon\<close>

lemma ms_value: "int n * 1000000 < 2 ^ 63 \<Longrightarrow> parseDuration (dec n @ ''ms'') = Inr (int n * 1000000)"
  by (rule parseDuration_whole) (simp_all add: unitMap_def numeric_def digit_val_def)

lemma us_value: "int n * 1000 < 2 ^ 63 \<Longrightarrow> parseDuration (dec n @ ''us'') = Inr (int n * 1000)"
  by (rule parseDuration_whole) (simp_all add: unitMap_def numeric_def digit_val_def)

lemma channels_then_timeout:
  assumes "\<forall>c \<in> set cs. valid_channel c" and "parseDuration v = Inr d" and "0 \<le> d"
  shows "parsePopArgs env (cs @ [''--timeout'', v]) = Inr (defaultSocketPath env, cs, d)"
proof -
  let ?ts = "map TChannel cs @ [TTimeout v]"
  have "last_socket s (map TChannel xs @ [TTimeout v]) = s"
    "last_timeout 0 (map TChannel xs @ [TTimeout v]) = d" for s xs
    using assms(2) by (induction xs) simp_all
  moreover have "concat (map token_args ?ts) = cs @ [''--timeout'', v]" "concat (map channel_of ?ts) = cs"
    by (simp_all add: comp_def concat_map_singleton)
  moreover have "\<forall>t \<in> set ?ts. usable t" using assms by auto
  ultimately show ?thesis
    using genericArgs_tokens [of ?ts] timeoutArgs_tokens [of ?ts] assms(3)
    by (simp add: parsePopArgs_def parseArgs_def)
qed

text \<open>
  Property C30. A timeout in whole milliseconds given to pop on the command line is exactly the
  deadline of the context the daemon waits with, up to 9223372036854 milliseconds.
\<close>

theorem pop_timeout_reaches_the_daemon:
  assumes "\<forall>c \<in> set cs. valid_channel c" and "1 \<le> n" and "n \<le> 9223372036854"
  shows "\<exists>t. parsePopArgs env (cs @ [''--timeout'', dec n @ ''ms'']) = Inr (defaultSocketPath env, cs, t)
    \<and> timeoutContext (popTimeout (reqTimeoutMS (popRequest cs t))) = Some (int n * 1000000)"
  using channels_then_timeout [OF assms(1) ms_value [of n]] assms(2,3)
  by (simp add: popRequest_def milliseconds_def popTimeout_def timeoutContext_def millisecond_def i64_bounded)

lemma pop_timeout_reaches_the_daemon_witness:
  "\<exists>t. parsePopArgs plain_env ([''a''] @ [''--timeout'', dec 1500 @ ''ms'']) = Inr (''/tmp/q.sock'', [''a''], t)
    \<and> timeoutContext (popTimeout (reqTimeoutMS (popRequest [''a''] t))) = Some 1500000000"
  using pop_timeout_reaches_the_daemon [of "[''a'']" 1500 plain_env]
  by (simp add: valid_channel_def alnum_def defaultSocketPath_def plain_env_def)

text \<open>
  Fact. A positive timeout below one millisecond given to pop is lost on the way: the
  request says zero and the daemon waits without a deadline.
\<close>

lemma sub_millisecond_timeout_is_no_timeout:
  assumes "\<forall>c \<in> set cs. valid_channel c" and "1 \<le> n" and "n \<le> 999"
  shows "\<exists>t. parsePopArgs env (cs @ [''--timeout'', dec n @ ''us'']) = Inr (defaultSocketPath env, cs, t)
    \<and> 0 < t \<and> timeoutContext (popTimeout (reqTimeoutMS (popRequest cs t))) = None"
  using channels_then_timeout [OF assms(1) us_value [of n]] assms(2,3)
  by (simp add: popRequest_def milliseconds_def popTimeout_def timeoutContext_def millisecond_def i64_bounded)

lemma sub_millisecond_timeout_is_no_timeout_witness:
  "\<exists>t. parsePopArgs plain_env ([''a''] @ [''--timeout'', dec 500 @ ''us'']) = Inr (''/tmp/q.sock'', [''a''], t)
    \<and> 0 < t \<and> timeoutContext (popTimeout (reqTimeoutMS (popRequest [''a''] t))) = None"
  using sub_millisecond_timeout_is_no_timeout [of "[''a'']" 500 plain_env]
  by (simp add: valid_channel_def alnum_def defaultSocketPath_def plain_env_def)

section \<open>Exit codes\<close>

definition broker_error :: "goerr \<Rightarrow> bool" where
  "broker_error err \<longleftrightarrow> err = ErrTimeout \<or> err = NoChannels \<or> (\<exists>c. err = InvalidChannel c)"

text \<open>
  Property C31. The exit code of pop: 0 with exactly the payload on standard output for a
  message, 2 for a timeout, 1 for the broker's other errors, with the error on standard error.
\<close>

theorem pop_exit_code:
  assumes "parsePopArgs env args = Inr (socket, cs, t)" and "cs \<noteq> []" and "\<forall>c \<in> set cs. valid_channel c"
    and "trip socket (popRequest cs t) = Inr (popResponse q res)" and "\<forall>err. res = Inl err \<longrightarrow> broker_error err"
  shows "runPop q env trip None args =
    (case res of
       Inr d \<Rightarrow> \<lparr>code = 0, stdout = dPayload d, stderr = []\<rparr>
     | Inl err \<Rightarrow>
         \<lparr>code = (if err = ErrTimeout then 2 else 1), stdout = [], stderr = error_text q err @ [CHR 0x0A]\<rparr>)"
proof -
  have "firstInvalidChannel cs = None"
    using assms(3) by (induction cs) (auto split: option.splits simp: validateChannel_Some)
  then show ?thesis
    using assms
    by (cases res)
       (auto simp: runPop_def popResponse_def errorResponse_def emptyResponse_def broker_error_def success_def
          runtimeError_def line_def exitOK_def exitTimeout_def exitRuntime_def)
qed

lemma pop_exit_code_witness:
  "runPop id plain_env (\<lambda>_ _. Inr (popResponse id (Inl ErrTimeout))) None [''a'', ''--timeout'', ''250ms'']
    = \<lparr>code = 2, stdout = [], stderr = ''timeout'' @ [CHR 0x0A]\<rparr>"
proof -
  have "parsePopArgs plain_env [''a'', ''--timeout'', ''250ms''] = Inr (''/tmp/q.sock'', [''a''], 250000000)"
    by code_simp
  then show ?thesis
    by (subst pop_exit_code [where res = "Inl ErrTimeout"])
       (auto simp: valid_channel_def alnum_def broker_error_def)
qed

end
