(* ===== verification/Client.thy ===== *)
theory Client
  imports Cli
begin

text \<open>
  The client side of a connection (\<open>main.go\<close>): dialling, starting the daemon when nobody listens,
  one request and its response. What the operating system answers (dialling, starting a process,
  the clock, \<open>stat\<close>) is an argument of each definition.
\<close>

section \<open>One request on a connection\<close>

record rpcClient =
  rpcReader :: reader
  rpcWriter :: writer

text \<open>\<open>(*rpcClient).Do\<close>.\<close>

definition clientDo :: "rpcClient \<Rightarrow> request \<Rightarrow> (goerr + response) \<times> rpcClient" where
  "clientDo c req =
     (case writeRequest req (rpcWriter c) of
        (Some err, w) \<Rightarrow> (Inl (Wrap ''send request'' err), c\<lparr>rpcWriter := w\<rparr>)
      | (None, w) \<Rightarrow>
          (case readResponse (rpcReader c) of
             (Inl err, r) \<Rightarrow> (Inl (Wrap ''read response'' err), c\<lparr>rpcReader := r, rpcWriter := w\<rparr>)
           | (Inr resp, r) \<Rightarrow> (Inr resp, c\<lparr>rpcReader := r, rpcWriter := w\<rparr>)))"

text \<open>\<open>(*rpcClient).Push\<close>.\<close>

definition clientPush :: "rpcClient \<Rightarrow> string \<Rightarrow> bytes \<Rightarrow> goerr option \<times> rpcClient" where
  "clientPush c channel payload =
     (case writeRequest \<lparr>reqOp = ''push'', reqChannels = [channel], reqPayload = payload,
             reqTimeoutMS = 0\<rparr> (rpcWriter c) of
        (Some err, w) \<Rightarrow> (Some (Wrap ''send push'' err), c\<lparr>rpcWriter := w\<rparr>)
      | (None, w) \<Rightarrow>
          (case readResponse (rpcReader c) of
             (Inl err, r) \<Rightarrow> (Some (Wrap ''read push response'' err), c\<lparr>rpcReader := r, rpcWriter := w\<rparr>)
           | (Inr resp, r) \<Rightarrow>
               ((if \<not> respOK resp then Some (Text (respError resp)) else None),
                c\<lparr>rpcReader := r, rpcWriter := w\<rparr>)))"

text \<open>\<open>(*rpcClient).Pop\<close>.\<close>

definition clientPop :: "rpcClient \<Rightarrow> string list \<Rightarrow> int \<Rightarrow> (goerr + response) \<times> rpcClient" where
  "clientPop c channels timeoutMS =
     (case writeRequest \<lparr>reqOp = ''pop'', reqChannels = channels, reqPayload = [],
             reqTimeoutMS = timeoutMS\<rparr> (rpcWriter c) of
        (Some err, w) \<Rightarrow> (Inl (Wrap ''send pop'' err), c\<lparr>rpcWriter := w\<rparr>)
      | (None, w) \<Rightarrow>
          (case readResponse (rpcReader c) of
             (Inl err, r) \<Rightarrow> (Inl (Wrap ''read pop response'' err), c\<lparr>rpcReader := r, rpcWriter := w\<rparr>)
           | (Inr resp, r) \<Rightarrow> (Inr resp, c\<lparr>rpcReader := r, rpcWriter := w\<rparr>)))"

section \<open>Connecting\<close>

text \<open>\<open>errors.As\<close> to a \<open>*net.OpError\<close>, and \<open>errors.Is\<close> with the error inside it.\<close>

fun asOpError :: "goerr \<Rightarrow> goerr option" where
  "asOpError (OpError op inner) = Some inner"
| "asOpError (Wrap p e) = asOpError e"
| "asOpError _ = None"

definition shouldStartDaemon :: "goerr \<Rightarrow> bool" where
  "shouldStartDaemon err =
     (case asOpError err of
        None \<Rightarrow> False
      | Some inner \<Rightarrow> go_is inner (Syscall ENOENT) \<or> go_is inner (Syscall ECONNREFUSED))"

text \<open>A dialled connection: what the peer will send, and the error its writes will meet.\<close>

type_synonym link = "reader \<times> goerr option"

definition connectTo :: "link \<Rightarrow> rpcClient" where
  "connectTo l = \<lparr>rpcReader = fst l, rpcWriter = newWriter (snd l)\<rparr>"

text \<open>\<open>dial\<close> and \<open>redial\<close> are the first and the second \<open>net.DialTimeout\<close>, \<open>started\<close> is the error of
  \<open>ensureDaemon\<close>.\<close>

definition newRPCClient ::
    "goerr + link \<Rightarrow> goerr option \<Rightarrow> goerr + link \<Rightarrow> bool \<Rightarrow> goerr + rpcClient" where
  "newRPCClient dial started redial autoStart =
     (case dial of
        Inr l \<Rightarrow> Inr (connectTo l)
      | Inl err \<Rightarrow>
          if autoStart \<and> shouldStartDaemon err then
            (case started of
               Some startErr \<Rightarrow> Inl startErr
             | None \<Rightarrow>
                 (case redial of
                    Inr l \<Rightarrow> Inr (connectTo l)
                  | Inl err2 \<Rightarrow> Inl (Wrap ''connect to daemon'' err2)))
          else Inl (Wrap ''connect to daemon'' err))"

definition roundTrip ::
    "goerr + link \<Rightarrow> goerr option \<Rightarrow> goerr + link \<Rightarrow> bool \<Rightarrow> request \<Rightarrow> goerr + response" where
  "roundTrip dial started redial autoStart req =
     (case newRPCClient dial started redial autoStart of
        Inl err \<Rightarrow> Inl err
      | Inr client \<Rightarrow> fst (clientDo client req))"

section \<open>Starting the daemon\<close>

text \<open>
  The probe loop of \<open>ensureDaemon\<close>: each element says that the deadline had not passed and whether
  the dial then succeeded; the list ends when the deadline has passed.
\<close>

fun probeLoop :: "bool list \<Rightarrow> bool" where
  "probeLoop [] = False"
| "probeLoop (dialled # later) = (if dialled then True else probeLoop later)"

text \<open>\<open>self\<close> is \<open>os.Executable\<close> and \<open>base\<close> its \<open>filepath.Base\<close>.\<close>

definition ensureDaemon ::
    "(string \<Rightarrow> string) \<Rightarrow> env \<Rightarrow> goerr + string \<Rightarrow> goerr option \<Rightarrow> bool list \<Rightarrow> string \<Rightarrow> goerr option" where
  "ensureDaemon q env base start probes socketPath =
     (case base of
        Inl err \<Rightarrow> Some (Wrap ''resolve executable'' err)
      | Inr self \<Rightarrow>
          (case start of
             Some err \<Rightarrow> Some (Wrap ''start daemon'' err)
           | None \<Rightarrow>
               if probeLoop probes then None
               else Some (Text (''daemon did not start at '' @ socketPath @ [CHR 0x0A] @ ''try:'' @ [CHR 0x0A]
                 @ ''  '' @ self @ '' serve --socket '' @ q (suggestedSocketPath env socketPath)
                 @ [CHR 0x0A] @ ''or:'' @ [CHR 0x0A] @ ''  ATOMIC_QUEUE_SOCKET=''
                 @ q (suggestedSocketPath env socketPath) @ '' '' @ self @ '' serve''))))"

section \<open>The socket file of the daemon\<close>

datatype socket_action = Proceed | RemoveThenProceed | Refused goerr

text \<open>
  \<open>removeStaleSocket\<close>: \<open>info\<close> is the result of \<open>os.Stat\<close> (whether the file is a socket), \<open>dial\<close> the
  error of dialling it, \<open>removed\<close> the error of removing it.
\<close>

definition removeStaleSocket ::
    "string \<Rightarrow> goerr + bool \<Rightarrow> goerr option \<Rightarrow> goerr option \<Rightarrow> socket_action" where
  "removeStaleSocket socketPath info dial removed =
     (case info of
        Inr isSocket \<Rightarrow>
          if \<not> isSocket then Refused (Text (socketPath @ '' exists and is not a socket''))
          else
            (case dial of
               None \<Rightarrow> Refused (Text (''daemon already running at '' @ socketPath))
             | Some dialErr \<Rightarrow>
                 if \<not> go_is dialErr (Syscall ECONNREFUSED) \<and> \<not> go_is dialErr (Syscall ENOENT)
                 then Refused (Wrap ''check existing socket'' dialErr)
                 else
                   (case removed of
                      Some err \<Rightarrow> Refused (Wrap ''remove stale socket'' err)
                    | None \<Rightarrow> RemoveThenProceed))
      | Inl err \<Rightarrow>
          if go_is err (Syscall ENOENT) then Proceed else Refused (Wrap ''stat socket'' err))"

section \<open>What the client guarantees\<close>

text \<open>A request that reaches the daemon as it was meant, and the response as it was given.\<close>

lemma clientDo_exchange:
  assumes req: "valid_request req" and resp: "valid_response resp"
    and c: "rpcReader c = \<lparr>rdata = response_frame resp @ rest, rend = e\<rparr>" "rpcWriter c = newWriter None"
  shows "\<exists>w. clientDo c req = (Inr resp, c\<lparr>rpcReader := \<lparr>rdata = rest, rend = e\<rparr>, rpcWriter := w\<rparr>)
    \<and> sent w = request_frame req \<and> pending w = []"
proof -
  have "healthy (newWriter None)" by (simp add: healthy_def newWriter_def)
  with writeRequest_delivers [OF req] obtain w where
    w: "writeRequest req (newWriter None) = (None, w)" "pending w = []" "sent w = request_frame req"
    by (auto simp: delivers_def newWriter_def written_def)
  moreover have "readResponse \<lparr>rdata = response_frame resp @ rest, rend = e\<rparr> = (Inr resp, \<lparr>rdata = rest, rend = e\<rparr>)"
    using response.decode [OF resp, of "\<lparr>rdata = response_frame resp @ rest, rend = e\<rparr>" rest] by simp
  ultimately show ?thesis using c by (intro exI [of _ w]) (simp add: clientDo_def)
qed



lemma go_is_asOpError: "asOpError err = Some inner \<Longrightarrow> go_is err (Syscall n) = go_is inner (Syscall n)"
  by (induction err rule: asOpError.induct) auto

text \<open>
  Fact. Client and daemon agree on what a stale socket is: a client starts a daemon on the
  error of its dial exactly when a daemon that meets the same error on the same socket file removes
  the file and goes on; on every other error neither touches it.
\<close>

lemma client_and_daemon_agree_on_stale_sockets:
  assumes "asOpError err = Some inner"
  shows "shouldStartDaemon err \<longleftrightarrow> removeStaleSocket path (Inr True) (Some err) None = RemoveThenProceed"
  using go_is_asOpError [OF assms] assms by (simp add: shouldStartDaemon_def removeStaleSocket_def)

lemma client_and_daemon_agree_on_stale_sockets_witness:
  "shouldStartDaemon (OpError ''dial unix /s'' (Wrap ''connect'' (Syscall ECONNREFUSED)))
   \<and> removeStaleSocket ''/s'' (Inr True)
       (Some (OpError ''dial unix /s'' (Wrap ''connect'' (Syscall ECONNREFUSED)))) None = RemoveThenProceed"
  using client_and_daemon_agree_on_stale_sockets
    [of "OpError ''dial unix /s'' (Wrap ''connect'' (Syscall ECONNREFUSED))"
        "Wrap ''connect'' (Syscall ECONNREFUSED)" "''/s''"]
  by (simp add: shouldStartDaemon_def)

end
