(* ===== verification/ConnWatcher.thy ===== *)
theory ConnWatcher
  imports Prelude GoErrors
begin

text \<open>
  The connection watcher (\<open>conn_watcher.go\<close>): its map from file descriptors to cancel functions, one
  function per section under its lock, and the loop that turns epoll events into cancellations, among
  connections that open, register, unregister and close, and a kernel that reports a closed peer once
  and gives a closed descriptor's number to the next connection.
\<close>

section \<open>The watcher\<close>

text \<open>A cancel function is the number of the connection whose context it cancels.\<close>

record watcher =
  cancels :: "int \<rightharpoonup> nat"

definition newConnWatcher :: "goerr option \<Rightarrow> goerr + watcher" where
  "newConnWatcher created =
     (case created of
        Some err \<Rightarrow> Inl (Wrap ''epoll_create1'' err)
      | None \<Rightarrow> Inr \<lparr>cancels = Map.empty\<rparr>)"

text \<open>\<open>EPOLLRDHUP | EPOLLHUP | EPOLLERR | 0x80000000\<close> (edge-triggered).\<close>

definition epollEventMask :: "32 word" where
  "epollEventMask = or (or (or 0x2000 0x10) 0x8) 0x80000000"

text \<open>\<open>register\<close>: enter the cancel function, then add the descriptor; on failure take it back.\<close>

definition registerEnter :: "watcher \<Rightarrow> int \<Rightarrow> nat \<Rightarrow> watcher" where
  "registerEnter w fd cancel = w\<lparr>cancels := (cancels w)(fd \<mapsto> cancel)\<rparr>"

definition registerAdded :: "watcher \<Rightarrow> int \<Rightarrow> goerr option \<Rightarrow> goerr option \<times> watcher" where
  "registerAdded w fd added =
     (case added of
        Some err \<Rightarrow> (Some (Wrap ''epoll_ctl add'' err), w\<lparr>cancels := (cancels w)(fd := None)\<rparr>)
      | None \<Rightarrow> (None, w))"

definition unregister :: "watcher \<Rightarrow> int \<Rightarrow> watcher" where
  "unregister w fd = w\<lparr>cancels := (cancels w)(fd := None)\<rparr>"

text \<open>The body of the loop over the events of one \<open>EpollWait\<close>.\<close>

definition handleEvent :: "watcher \<Rightarrow> int \<Rightarrow> nat option \<times> watcher" where
  "handleEvent w fd =
     (case cancels w fd of
        None \<Rightarrow> (None, w)
      | Some cancel \<Rightarrow> (Some cancel, w\<lparr>cancels := (cancels w)(fd := None)\<rparr>))"

text \<open>\<open>EpollWait\<close>'s error: try again, or end the loop.\<close>

definition waitFailed :: "goerr \<Rightarrow> bool" where
  "waitFailed err = (\<not> go_is err (Syscall EINTR))"

text \<open>
  \<open>connFD\<close>: \<open>raw\<close> is the result of \<open>SyscallConn\<close> (\<open>None\<close> when the connection does not have it) and
  \<open>control\<close> that of \<open>Control\<close> with the descriptor it was given.
\<close>

definition connFD :: "(goerr + unit) option \<Rightarrow> goerr + int \<Rightarrow> goerr + int" where
  "connFD raw control =
     (case raw of
        None \<Rightarrow> Inl (Text ''conn does not support SyscallConn'')
      | Some (Inl err) \<Rightarrow> Inl err
      | Some (Inr _) \<Rightarrow>
          (case control of Inl cerr \<Rightarrow> Inl cerr | Inr f \<Rightarrow> Inr (signed_take_bit 31 f)))"

section \<open>Connections and the kernel\<close>

text \<open>
  Where the handler of a connection is: before \<open>register\<close>, between its two halves, registered,
  between the two halves of \<open>unregister\<close>, after it (before \<open>Close\<close>), closed.
\<close>

datatype stage = Fresh | Entered | Registered | Removing | Unregistered | Closed

record wconn =
  fdOf :: int
  stage :: stage
  peerGone :: bool

text \<open>
  \<open>interest\<close> is epoll's set (the descriptor and the connection it was added for), \<open>batch\<close> the
  events of the last \<open>EpollWait\<close> the loop has not handled yet, \<open>cancelled\<close> the connections whose cancel
  function the loop has called.
\<close>

record wsys =
  wat :: watcher
  wconns :: "wconn list"
  interest :: "int \<rightharpoonup> nat"
  batch :: "int list"
  cancelled :: "nat list"

definition wsys_init :: "wsys \<Rightarrow> bool" where
  "wsys_init s \<longleftrightarrow>
     s = \<lparr>wat = \<lparr>cancels = Map.empty\<rparr>, wconns = [], interest = Map.empty, batch = [], cancelled = []\<rparr>"

definition fd_free :: "wsys \<Rightarrow> int \<Rightarrow> bool" where
  "fd_free s fd = list_all (\<lambda>c. stage c = Closed \<or> fdOf c \<noteq> fd) (wconns s)"

definition at_stage :: "wsys \<Rightarrow> nat \<Rightarrow> stage \<Rightarrow> bool" where
  "at_stage s i st \<longleftrightarrow> i < length (wconns s) \<and> stage (wconns s ! i) = st"

definition to_stage :: "wsys \<Rightarrow> nat \<Rightarrow> stage \<Rightarrow> wsys" where
  "to_stage s i st = s\<lparr>wconns := (wconns s)[i := (wconns s ! i)\<lparr>stage := st\<rparr>]\<rparr>"

definition fd_of :: "wsys \<Rightarrow> nat \<Rightarrow> int" where
  "fd_of s i = fdOf (wconns s ! i)"

datatype waction =
    WOpen int
  | WEnter nat
  | WAdd nat bool
  | WPeerGone nat
  | WWait "int list"
  | WHandle
  | WDel nat
  | WDelete nat
  | WClose nat

text \<open>Whether the kernel can report the descriptor: it is watched and its peer is gone.\<close>

definition reportable :: "wsys \<Rightarrow> int \<Rightarrow> bool" where
  "reportable s fd =
     (case interest s fd of None \<Rightarrow> False | Some i \<Rightarrow> i < length (wconns s) \<and> peerGone (wconns s ! i))"

fun wperform :: "wsys \<Rightarrow> waction \<Rightarrow> wsys option" where
  "wperform s (WOpen fd) =
     (if fd_free s fd then Some (s\<lparr>wconns := wconns s @ [\<lparr>fdOf = fd, stage = Fresh, peerGone = False\<rparr>]\<rparr>) else None)"
| "wperform s (WEnter i) =
     (if at_stage s i Fresh
      then Some ((to_stage s i Entered)\<lparr>wat := registerEnter (wat s) (fd_of s i) i\<rparr>) else None)"
| "wperform s (WAdd i ok) =
     (if at_stage s i Entered then
        (if ok then Some ((to_stage s i Registered)\<lparr>interest := (interest s)(fd_of s i \<mapsto> i)\<rparr>)
         else Some ((to_stage s i Unregistered)\<lparr>wat := snd (registerAdded (wat s) (fd_of s i) (Some (Text [])))\<rparr>))
      else None)"
| "wperform s (WPeerGone i) =
     (if i < length (wconns s)
      then Some (s\<lparr>wconns := (wconns s)[i := (wconns s ! i)\<lparr>peerGone := True\<rparr>]\<rparr>) else None)"
| "wperform s (WWait fds) =
     (if batch s = [] \<and> list_all (reportable s) fds then Some (s\<lparr>batch := fds\<rparr>) else None)"
| "wperform s WHandle =
     (case batch s of
        [] \<Rightarrow> None
      | fd # fds \<Rightarrow>
          (case handleEvent (wat s) fd of
             (None, w) \<Rightarrow> Some (s\<lparr>wat := w, batch := fds\<rparr>)
           | (Some i, w) \<Rightarrow> Some (s\<lparr>wat := w, batch := fds, cancelled := cancelled s @ [i]\<rparr>)))"
| "wperform s (WDel i) =
     (if at_stage s i Registered
      then Some ((to_stage s i Removing)\<lparr>interest := (interest s)(fd_of s i := None)\<rparr>) else None)"
| "wperform s (WDelete i) =
     (if at_stage s i Removing
      then Some ((to_stage s i Unregistered)\<lparr>wat := unregister (wat s) (fd_of s i)\<rparr>) else None)"
| "wperform s (WClose i) =
     (if at_stage s i Fresh \<or> at_stage s i Unregistered then Some (to_stage s i Closed) else None)"

inductive wstep :: "wsys \<Rightarrow> waction \<Rightarrow> wsys \<Rightarrow> bool" where
  wstep: "wperform s a = Some s' \<Longrightarrow> wstep s a s'"

inductive_cases wstepE: "wstep s a s'"

section \<open>The invariant\<close>

definition held :: "wsys \<Rightarrow> nat \<Rightarrow> bool" where
  "held s i \<longleftrightarrow> i < length (wconns s) \<and> stage (wconns s ! i) \<in> {Entered, Registered, Removing}"

text \<open>
  Open connections have different descriptors; a cancel function in the map belongs to a connection
  that is open on that descriptor and has not finished unregistering; a cancel function called is no
  longer in the map, and no connection is cancelled twice.
\<close>

definition fds_distinct :: "wsys \<Rightarrow> bool" where
  "fds_distinct s \<longleftrightarrow>
     (\<forall>i < length (wconns s). \<forall>j < length (wconns s).
        stage (wconns s ! i) \<noteq> Closed \<longrightarrow> stage (wconns s ! j) \<noteq> Closed \<longrightarrow> fd_of s i = fd_of s j \<longrightarrow> i = j)"

definition wsys_inv :: "wsys \<Rightarrow> bool" where
  "wsys_inv s \<longleftrightarrow>
     fds_distinct s
     \<and> (\<forall>fd i. cancels (wat s) fd = Some i \<longrightarrow> held s i \<and> fd_of s i = fd \<and> i \<notin> set (cancelled s))
     \<and> (\<forall>fd i. interest s fd = Some i \<longrightarrow> i < length (wconns s) \<and> stage (wconns s ! i) = Registered \<and> fd_of s i = fd)
     \<and> distinct (cancelled s)
     \<and> (\<forall>i \<in> set (cancelled s). i < length (wconns s) \<and> stage (wconns s ! i) \<noteq> Fresh)"

lemmas wsys_defs = wsys_inv_def fds_distinct_def held_def fd_of_def to_stage_def at_stage_def

lemma wsys_inv_init: "wsys_init s \<Longrightarrow> wsys_inv s"
  by (auto simp: wsys_init_def wsys_defs)

lemma wsys_invD:
  assumes "wsys_inv s"
  shows "cancels (wat s) fd = Some i \<Longrightarrow> held s i \<and> fd_of s i = fd \<and> i \<notin> set (cancelled s)"
    and "interest s fd = Some i \<Longrightarrow> i < length (wconns s) \<and> stage (wconns s ! i) = Registered \<and> fd_of s i = fd"
    and "i \<in> set (cancelled s) \<Longrightarrow> i < length (wconns s) \<and> stage (wconns s ! i) \<noteq> Fresh"
  using assms unfolding wsys_inv_def by blast+

text \<open>One connection moves on; what the two maps hold of it has to fit its new stage.\<close>

lemma stage_move:
  assumes inv: "wsys_inv s" and i: "at_stage s i st1" "st1 \<noteq> Closed" "st2 \<noteq> Fresh"
    and s': "wconns s' = (wconns s)[i := (wconns s ! i)\<lparr>stage := st2\<rparr>]" "cancelled s' = cancelled s"
    and can: "\<And>fd j. cancels (wat s') fd = Some j \<Longrightarrow>
      (if j = i then st2 \<in> {Entered, Registered, Removing} \<and> fd = fd_of s i \<and> i \<notin> set (cancelled s)
       else cancels (wat s) fd = Some j)"
    and int: "\<And>fd j. interest s' fd = Some j \<Longrightarrow>
      (if j = i then st2 = Registered \<and> fd = fd_of s i else interest s fd = Some j)"
  shows "wsys_inv s'"
proof -
  have i': "i < length (wconns s)" "stage (wconns s ! i) = st1" using i by (simp_all add: at_stage_def)
  have fd: "fd_of s' j = fd_of s j" for j using i' by (simp add: fd_of_def s' nth_list_update)
  have stg: "stage (wconns s' ! j) = (if j = i then st2 else stage (wconns s ! j))" for j
    using i' by (simp add: s' nth_list_update)
  have len: "length (wconns s') = length (wconns s)" by (simp add: s')
  show ?thesis
    unfolding wsys_inv_def
  proof (intro conjI allI impI ballI)
    have nc: "stage (wconns s' ! j) \<noteq> Closed \<Longrightarrow> stage (wconns s ! j) \<noteq> Closed" for j
      using i i' stg by (cases "j = i") auto
    show "fds_distinct s'"
      using inv nc unfolding wsys_inv_def fds_distinct_def len fd by blast
    fix f j
    assume c: "cancels (wat s') f = Some j"
    from can [OF c] wsys_invD(1) [OF inv, of f j] show "held s' j" "fd_of s' j = f" "j \<notin> set (cancelled s')"
      using i' by (auto simp: held_def len stg fd s'(2) split: if_splits)
  next
    fix f j
    assume c: "interest s' f = Some j"
    from int [OF c] wsys_invD(2) [OF inv, of f j]
    show "j < length (wconns s')" "stage (wconns s' ! j) = Registered" "fd_of s' j = f"
      using i' by (auto simp: len stg fd split: if_splits)
  next
    show "distinct (cancelled s')" using inv by (simp add: wsys_inv_def s')
    fix j
    assume "j \<in> set (cancelled s')"
    with wsys_invD(3) [OF inv, of j] show "j < length (wconns s')" "stage (wconns s' ! j) \<noteq> Fresh"
      using i by (auto simp: len stg s'(2))
  qed
qed

lemma wopen_inv:
  assumes inv: "wsys_inv s" and free: "fd_free s fd"
  shows "wsys_inv (s\<lparr>wconns := wconns s @ [\<lparr>fdOf = fd, stage = Fresh, peerGone = False\<rparr>]\<rparr>)"
proof -
  have "stage (wconns s ! j) = Closed \<or> fdOf (wconns s ! j) \<noteq> fd" if "j < length (wconns s)" for j
    using free that by (auto simp: fd_free_def list_all_length)
  then show ?thesis
    using inv unfolding wsys_defs by (auto simp: nth_append less_Suc_eq)
qed

lemma inv_frame:
  assumes "wsys_inv s" and "length (wconns s') = length (wconns s)"
    and "\<And>j. j < length (wconns s) \<Longrightarrow> stage (wconns s' ! j) = stage (wconns s ! j) \<and> fdOf (wconns s' ! j) = fdOf (wconns s ! j)"
    and "cancels (wat s') = cancels (wat s)" and "interest s' = interest s" and "cancelled s' = cancelled s"
  shows "wsys_inv s'"
  using assms(1) unfolding wsys_inv_def fds_distinct_def held_def fd_of_def assms(2,4,5,6)
  by (simp add: assms(3) cong: conj_cong)

lemma whandle_inv:
  assumes inv: "wsys_inv s" and st: "wperform s WHandle = Some s'"
  shows "wsys_inv s'"
proof -
  obtain fd fds where b: "batch s = fd # fds" using st by (cases "batch s") auto
  show ?thesis
  proof (cases "cancels (wat s) fd")
    case None
    with st b show ?thesis by (intro inv_frame [OF inv]) (auto simp: handleEvent_def)
  next
    case (Some i)
    have s': "s' = s\<lparr>wat := (wat s)\<lparr>cancels := (cancels (wat s))(fd := None)\<rparr>, batch := fds, cancelled := cancelled s @ [i]\<rparr>"
      using st b Some by (simp add: handleEvent_def)
    have here: "held s i" "fd_of s i = fd" "i \<notin> set (cancelled s)" using wsys_invD(1) [OF inv Some] by simp_all
    have "j \<noteq> i" if "cancels (wat s) f = Some j" "f \<noteq> fd" for f j
      using wsys_invD(1) [OF inv that(1)] that(2) here(2) by auto
    with inv here show ?thesis
      unfolding s' by (auto simp: wsys_inv_def fds_distinct_def held_def fd_of_def)
  qed
qed

lemma wstep_inv:
  assumes st: "wstep s a s'" and inv: "wsys_inv s"
  shows "wsys_inv s'"
proof -
  from st have p: "wperform s a = Some s'" by (rule wstepE)
  show ?thesis
  proof (cases a)
    case (WOpen fd)
    with p inv wopen_inv show ?thesis by (auto split: if_splits)
  next
    case (WEnter i)
    with p have "at_stage s i Fresh" "s' = (to_stage s i Entered)\<lparr>wat := registerEnter (wat s) (fd_of s i) i\<rparr>"
      by (auto split: if_splits)
    then show ?thesis
      using wsys_invD [OF inv]
      by (intro stage_move [OF inv, where i = i and ?st1.0 = Fresh and ?st2.0 = Entered])
         (auto simp: to_stage_def registerEnter_def at_stage_def held_def split: if_splits)
  next
    case (WAdd i ok)
    with p have "at_stage s i Entered" "s' = (if ok then (to_stage s i Registered)\<lparr>interest := (interest s)(fd_of s i \<mapsto> i)\<rparr>
        else (to_stage s i Unregistered)\<lparr>wat := snd (registerAdded (wat s) (fd_of s i) (Some (Text [])))\<rparr>)"
      by (auto split: if_splits)
    then show ?thesis
      using wsys_invD [OF inv]
      by (intro stage_move [OF inv, where i = i and ?st1.0 = Entered
            and ?st2.0 = "if ok then Registered else Unregistered"])
         (auto simp: to_stage_def registerAdded_def at_stage_def held_def split: if_splits)
  next
    case (WPeerGone i)
    with p show ?thesis by (intro inv_frame [OF inv]) (auto simp: nth_list_update split: if_splits)
  next
    case (WWait fds)
    with p show ?thesis by (intro inv_frame [OF inv]) (auto split: if_splits)
  next
    case WHandle
    with p inv whandle_inv show ?thesis by blast
  next
    case (WDel i)
    with p have "at_stage s i Registered" "s' = (to_stage s i Removing)\<lparr>interest := (interest s)(fd_of s i := None)\<rparr>"
      by (auto split: if_splits)
    then show ?thesis
      using wsys_invD [OF inv]
      by (intro stage_move [OF inv, where i = i and ?st1.0 = Registered and ?st2.0 = Removing])
         (auto simp: to_stage_def at_stage_def held_def split: if_splits)
  next
    case (WDelete i)
    with p have "at_stage s i Removing" "s' = (to_stage s i Unregistered)\<lparr>wat := unregister (wat s) (fd_of s i)\<rparr>"
      by (auto split: if_splits)
    then show ?thesis
      using wsys_invD [OF inv]
      by (intro stage_move [OF inv, where i = i and ?st1.0 = Removing and ?st2.0 = Unregistered])
         (auto simp: to_stage_def unregister_def at_stage_def held_def split: if_splits)
  next
    case (WClose i)
    with p obtain st where "at_stage s i st" "st = Fresh \<or> st = Unregistered" "s' = to_stage s i Closed"
      by (auto split: if_splits)
    then show ?thesis
      by (intro stage_move [OF inv, where i = i and ?st1.0 = st and ?st2.0 = Closed])
         (auto simp: to_stage_def at_stage_def held_def dest!: wsys_invD(1,2) [OF inv])
  qed
qed

interpretation watching: transition_invariant wsys_init wstep "\<lambda>_. wsys_inv"
  by unfold_locales (auto intro: wsys_inv_init wstep_inv)

section \<open>What the watcher guarantees, and what it does not\<close>


interpretation sockets: scheduler wsys_init wstep "\<lambda>s a. map_option (Pair a) (wperform s a)"
  by unfold_locales (auto intro: wstep)

definition wsys_start :: wsys where
  "wsys_start = \<lparr>wat = \<lparr>cancels = Map.empty\<rparr>, wconns = [], interest = Map.empty, batch = [], cancelled = []\<rparr>"

definition wleads :: "waction list \<Rightarrow> (wsys \<Rightarrow> bool) \<Rightarrow> bool" where
  "wleads as P = run_leads (\<lambda>s a. map_option (Pair a) (wperform s a)) wsys_start as (\<lambda>es. P)"

lemma wleads_execution:
  assumes "wleads as P"
  obtains es s where "execution wsys_init wstep es s" and "P s"
  using sockets.leads [OF assms [unfolded wleads_def]] by (auto simp: wsys_init_def wsys_start_def)


text \<open>
  Connection 0 is open on descriptor 7; its peer leaves and the loop has fetched the event. Before it
  handles it, the handler of connection 0 unregisters and closes, and connection 1 is accepted on the
  same descriptor and registers.
\<close>

definition reused_fd_run :: "waction list" where
  "reused_fd_run =
     [WOpen 7, WEnter 0, WAdd 0 True, WPeerGone 0, WWait [7], WDel 0, WDelete 0, WClose 0,
      WOpen 7, WEnter 1, WAdd 1 True, WHandle]"

text \<open>
  Property C35. An event fetched for a closed connection can cancel the next connection on the same
  descriptor: the loop calls the cancel function of a connection whose peer is still there.
\<close>

theorem stale_event_cancels_a_live_connection:
  "\<exists>es s. execution wsys_init wstep es s \<and> cancelled s = [1]
     \<and> stage (wconns s ! 1) = Registered \<and> \<not> peerGone (wconns s ! 1)"
proof -
  have "wleads reused_fd_run (\<lambda>s. cancelled s = [1] \<and> stage (wconns s ! 1) = Registered \<and> \<not> peerGone (wconns s ! 1))"
    by code_simp
  then show ?thesis by (rule wleads_execution) blast
qed

end
