(* ===== verification/Notifier.thy ===== *)
theory Notifier
  imports Prelude GoErrors
begin

text \<open>
  The block notifier (\<open>newBlockNotifier\<close> in \<open>main.go\<close>): any number of goroutines in the callback at
  once, interleaved at every access of the shared variables (the atomic time of the last notice, and
  the lazily opened syslog writer under its lock).
\<close>

section \<open>The callback\<close>

definition minInterval :: int where
  "minInterval = 10000000000"

text \<open>\<open>prev != 0 && now-prev < minInterval\<close>.\<close>

definition tooSoon :: "int \<Rightarrow> int \<Rightarrow> bool" where
  "tooSoon prev now = (prev \<noteq> 0 \<and> i64 (now - prev) < minInterval)"

definition noticeText :: "(string \<Rightarrow> string) \<Rightarrow> string \<Rightarrow> int \<Rightarrow> int \<Rightarrow> string" where
  "noticeText q channel queuedBytes maxQueuedBytes =
     ''push blocked: channel='' @ q channel @ '' queued='' @ dec_int queuedBytes @ ''/''
     @ dec_int maxQueuedBytes @ '' bytes (waiting for consumer)''"

text \<open>
  A goroutine outside the callback, after reading the clock, after \<open>Load\<close>, after winning the
  \<open>CompareAndSwap\<close>, and after the section under \<open>writerMu\<close> with the writer it found.
\<close>

datatype ncontrol =
    NIdle
  | NClock int
  | NLoaded int int
  | NWon int
  | NWriter int bool

text \<open>
  \<open>notices\<close> are the clock readings of the callbacks that won, in order; \<open>dials\<close> counts the calls of
  \<open>syslog.New\<close>; \<open>written\<close> the notices sent.
\<close>

record notifier =
  lastNs :: int
  writerSet :: bool
  writer :: bool
  ncalls :: "ncontrol list"
  notices :: "int list"
  dials :: nat
  written :: nat

definition newBlockNotifier :: notifier where
  "newBlockNotifier =
     \<lparr>lastNs = 0, writerSet = False, writer = False, ncalls = [], notices = [], dials = 0, written = 0\<rparr>"

definition nat_at :: "notifier \<Rightarrow> nat \<Rightarrow> ncontrol \<Rightarrow> bool" where
  "nat_at s t c \<longleftrightarrow> t < length (ncalls s) \<and> ncalls s ! t = c"

definition ngoto :: "notifier \<Rightarrow> nat \<Rightarrow> ncontrol \<Rightarrow> notifier" where
  "ngoto s t c = s\<lparr>ncalls := (ncalls s)[t := c]\<rparr>"

inductive nstep :: "notifier \<Rightarrow> unit \<Rightarrow> notifier \<Rightarrow> bool" where
  n_spawn: "nstep s () (s\<lparr>ncalls := ncalls s @ [NIdle]\<rparr>)"
| n_clock: "nat_at s t NIdle \<Longrightarrow> 0 < now \<Longrightarrow> now < 2 ^ 63 \<Longrightarrow> nstep s () (ngoto s t (NClock now))"
| n_load: "nat_at s t (NClock now) \<Longrightarrow> nstep s () (ngoto s t (NLoaded now (lastNs s)))"
| n_soon: "nat_at s t (NLoaded now prev) \<Longrightarrow> tooSoon prev now \<Longrightarrow> nstep s () (ngoto s t NIdle)"
| n_lost: "nat_at s t (NLoaded now prev) \<Longrightarrow> \<not> tooSoon prev now \<Longrightarrow> lastNs s \<noteq> prev \<Longrightarrow>
    nstep s () (ngoto s t NIdle)"
| n_won: "nat_at s t (NLoaded now prev) \<Longrightarrow> \<not> tooSoon prev now \<Longrightarrow> lastNs s = prev \<Longrightarrow>
    nstep s () ((ngoto s t (NWon now))\<lparr>lastNs := now, notices := notices s @ [now]\<rparr>)"
| n_open: "nat_at s t (NWon now) \<Longrightarrow> \<not> writerSet s \<Longrightarrow>
    nstep s () ((ngoto s t (NWriter now ok))\<lparr>writerSet := True, writer := ok, dials := dials s + 1\<rparr>)"
| n_reuse: "nat_at s t (NWon now) \<Longrightarrow> writerSet s \<Longrightarrow> nstep s () (ngoto s t (NWriter now (writer s)))"
| n_silent: "nat_at s t (NWriter now False) \<Longrightarrow> nstep s () (ngoto s t NIdle)"
| n_notice: "nat_at s t (NWriter now True) \<Longrightarrow>
    nstep s () ((ngoto s t NIdle)\<lparr>written := written s + 1\<rparr>)"

definition ninit :: "notifier \<Rightarrow> bool" where
  "ninit s \<longleftrightarrow> s = newBlockNotifier"

section \<open>The invariant\<close>

text \<open>Successive notices are at least the minimal interval apart.\<close>

fun spaced :: "int list \<Rightarrow> bool" where
  "spaced (x # y # zs) = (minInterval \<le> y - x \<and> spaced (y # zs))"
| "spaced _ = True"

fun nsane :: "ncontrol \<Rightarrow> bool" where
  "nsane (NClock now) = (0 < now \<and> now < 2 ^ 63)"
| "nsane (NLoaded now prev) = (0 < now \<and> now < 2 ^ 63)"
| "nsane _ = True"

fun npending :: "ncontrol \<Rightarrow> nat" where
  "npending (NWon now) = 1"
| "npending (NWriter now w) = 1"
| "npending _ = 0"

definition ninv :: "notifier \<Rightarrow> bool" where
  "ninv s \<longleftrightarrow>
     spaced (notices s)
     \<and> lastNs s = (if notices s = [] then 0 else last (notices s))
     \<and> (\<forall>x \<in> set (notices s). 0 < x \<and> x < 2 ^ 63)
     \<and> (\<forall>c \<in> set (ncalls s). nsane c)
     \<and> dials s = (if writerSet s then 1 else 0)
     \<and> written s + sum_list (map npending (ncalls s)) \<le> length (notices s)"

lemma spaced_snoc: "spaced (xs @ [x]) \<longleftrightarrow> spaced xs \<and> (xs = [] \<or> minInterval \<le> x - last xs)"
  by (induction xs rule: spaced.induct) auto

lemma npending_goto:
  assumes "nat_at s t c"
  shows "sum_list (map npending ((ncalls s)[t := c'])) + npending c = sum_list (map npending (ncalls s)) + npending c'"
  using sum_list_map_update [of t "ncalls s" npending c'] assms by (simp add: nat_at_def)

lemma nsane_goto: "\<forall>c \<in> set (ncalls s). nsane c \<Longrightarrow> nsane c' \<Longrightarrow> \<forall>c \<in> set ((ncalls s)[t := c']). nsane c"
  by (auto dest: set_update_subset_insert [THEN subsetD])

lemma nsane_at: "ninv s \<Longrightarrow> nat_at s t c \<Longrightarrow> nsane c"
  by (auto simp: ninv_def nat_at_def)

text \<open>A move that wins nothing: it spends what it held, at most by sending its notice.\<close>

lemma ninv_move:
  assumes "ninv s" and at: "nat_at s t c" and "nsane c'" and "npending c' + k \<le> npending c"
  shows "ninv ((ngoto s t c')\<lparr>written := written s + k\<rparr>)"
  using assms(1,4) npending_goto [OF at, of c'] nsane_goto [of s c' t] assms(3)
  by (simp add: ninv_def ngoto_def)

lemma ninv_goto: "ninv s \<Longrightarrow> nat_at s t c \<Longrightarrow> nsane c' \<Longrightarrow> npending c' \<le> npending c \<Longrightarrow> ninv (ngoto s t c')"
  using ninv_move [of s t c c' 0] by (simp add: ngoto_def)

lemma nstep_inv:
  assumes st: "nstep s e s'" and inv: "ninv s"
  shows "ninv s'"
  using st
proof cases
  case n_spawn
  then show ?thesis using inv by (simp add: ninv_def)
next
  case (n_won t now prev)
  have now: "0 < now" "now < 2 ^ 63"
    using inv n_won(3) nth_mem [of t "ncalls s"] by (auto simp: ninv_def nat_at_def)
  have gap: "minInterval \<le> now - last (notices s)" if ne: "notices s \<noteq> []"
  proof -
    have prev: "prev = last (notices s)" "0 < prev" "prev < 2 ^ 63"
      using inv n_won(5) ne by (auto simp: ninv_def)
    then have "i64 (now - prev) = now - prev" using now by (intro i64_bounded) auto
    with n_won(4) prev show ?thesis by (simp add: tooSoon_def)
  qed
  show ?thesis
    using inv now gap npending_goto [OF n_won(3), of "NWon now"] nsane_goto [of s "NWon now" t] n_won(2)
    by (auto simp: ninv_def ngoto_def spaced_snoc)
next
  case (n_open t now ok)
  from ninv_goto [OF inv n_open(3), of "NWriter now ok"] n_open(2,4) show ?thesis
    by (simp add: ninv_def ngoto_def)
next
  case (n_notice t now)
  from ninv_move [OF inv n_notice(3), of NIdle 1] n_notice(2) show ?thesis by simp
next
  case (n_load t now)
  with nsane_at [OF inv n_load(3)] ninv_goto [OF inv n_load(3)] show ?thesis by simp
qed (use inv ninv_goto in \<open>auto\<close>)

interpretation notifying: transition_invariant ninit nstep "\<lambda>_. ninv"
proof
  fix s
  assume "ninit s"
  then show "ninv s" by (simp add: ninit_def newBlockNotifier_def ninv_def)
qed (rule nstep_inv)

section \<open>At most one notice per interval\<close>

text \<open>
  Property C34. However many pushes block at once, the notices are rate limited: the clock readings of
  the callbacks that go on to the log are at least ten seconds apart, no more notices are sent than
  there are such callbacks, and the log is opened at most once.
\<close>

theorem notices_are_rate_limited:
  assumes "execution ninit nstep es s"
  shows "spaced (notices s) \<and> written s \<le> length (notices s) \<and> dials s \<le> 1"
  using notifying.always [OF assms] by (auto simp: ninv_def)

lemma notices_are_rate_limited_witness:
  "\<exists>es s. execution ninit nstep es s \<and> notices s = [1] \<and> written s = 0 \<and> dials s \<le> 1"
proof -
  let ?s0 = newBlockNotifier
  let ?s1 = "?s0\<lparr>ncalls := [NIdle]\<rparr>"
  let ?s2 = "ngoto ?s1 0 (NClock 1)"
  let ?s3 = "ngoto ?s2 0 (NLoaded 1 0)"
  let ?s4 = "(ngoto ?s3 0 (NWon 1))\<lparr>lastNs := 1, notices := [1]\<rparr>"
  note defs = nat_at_def ngoto_def newBlockNotifier_def tooSoon_def
  have e0: "execution ninit nstep [] ?s0" by (rule exec_start) (simp add: ninit_def)
  have s1: "nstep ?s0 () ?s1" using n_spawn [of ?s0] by (simp add: defs)
  have s2: "nstep ?s1 () ?s2" using n_clock [of ?s1 0 1] by (simp add: defs)
  have s3: "nstep ?s2 () ?s3" using n_load [of ?s2 0 1] by (simp add: defs)
  have s4: "nstep ?s3 () ?s4" using n_won [of ?s3 0 1 0] by (simp add: defs)
  note ex = exec_step [OF exec_step [OF exec_step [OF exec_step [OF e0 s1] s2] s3] s4]
  have "notices ?s4 = [1]" "written ?s4 = 0" by (simp_all add: ngoto_def newBlockNotifier_def)
  with ex notices_are_rate_limited [OF ex] show ?thesis by blast
qed

end
