(* ===== verification/Serve.thy ===== *)
theory Serve
  imports Client ConnWatcher
begin

text \<open>
  Starting and stopping \<open>serve\<close> (\<open>main.go\<close>): the system calls one daemon makes around its accept loop,
  in the order of the code and of its deferred calls, for any number of daemons on the same socket path
  at once, interleaved between any two system calls. \<open>net.Listen\<close> is its two calls \<open>bind\<close> and \<open>listen\<close>
  (between them the file exists and refuses connections), and closing a Unix listener is its two calls
  \<open>unlink\<close> and \<open>close\<close>.
\<close>

section \<open>The file at the socket path\<close>

text \<open>A socket's owner is the daemon that bound it, if any of the modelled ones; modes are permission bits.\<close>

datatype fentry = Plain | Sock "nat option" "32 word"

text \<open>
  The next system call of a daemon; \<open>r\<close> is the result \<open>serve\<close> is about to return (\<open>None\<close> for \<open>nil\<close>) or,
  at \<open>SRestore\<close>, the result of \<open>net.Listen\<close>.
\<close>

datatype sstage =
    SMkdir
  | SStat
  | SDial
  | SRemove
  | SUmask
  | SBind
  | SListen
  | SRestore "goerr option"
  | SChmod
  | SWatch
  | Serving
  | SUnlink "goerr option"
  | SClose "goerr option"
  | SFinal "goerr option"
  | Returned "goerr option"
  | Killed

record sproc =
  stg :: sstage
  umask :: "32 word"
  prevUmask :: "32 word"
  up :: bool

record ssys =
  procs :: "sproc list"
  node :: "fentry option"

definition ssys_init :: "ssys \<Rightarrow> bool" where
  "ssys_init s \<longleftrightarrow> procs s = [] \<and> (\<forall>i m. node s \<noteq> Some (Sock (Some i) m))"

definition sstage_is :: "ssys \<Rightarrow> nat \<Rightarrow> sstage \<Rightarrow> bool" where
  "sstage_is s i st \<longleftrightarrow> i < length (procs s) \<and> stg (procs s ! i) = st"

definition supdate :: "ssys \<Rightarrow> nat \<Rightarrow> (sproc \<Rightarrow> sproc) \<Rightarrow> ssys" where
  "supdate s i f = s\<lparr>procs := (procs s)[i := f (procs s ! i)]\<rparr>"

definition sgoto :: "ssys \<Rightarrow> nat \<Rightarrow> sstage \<Rightarrow> ssys" where
  "sgoto s i st = supdate s i (\<lambda>p. p\<lparr>stg := st\<rparr>)"

text \<open>The error of dialling what is at the path.\<close>

definition dialError :: "ssys \<Rightarrow> goerr option" where
  "dialError s =
     (case node s of
        None \<Rightarrow> Some (OpError ''dial unix'' (Syscall ENOENT))
      | Some (Sock (Some i) m) \<Rightarrow>
          if i < length (procs s) \<and> up (procs s ! i) then None
          else Some (OpError ''dial unix'' (Syscall ECONNREFUSED))
      | Some f \<Rightarrow> Some (OpError ''dial unix'' (Syscall ECONNREFUSED)))"

section \<open>The system calls of serve\<close>

definition staleNext :: "socket_action \<Rightarrow> sstage \<Rightarrow> sstage" where
  "staleNext act onward = (case act of Refused err \<Rightarrow> Returned (Some err) | _ \<Rightarrow> onward)"

text \<open>The next call of daemon \<open>i\<close>, answered by the state of the path.\<close>

fun scall :: "string \<Rightarrow> ssys \<Rightarrow> nat \<Rightarrow> sstage \<Rightarrow> ssys option" where
  "scall path s i SMkdir = Some (sgoto s i SStat)"
| "scall path s i SStat =
     (case node s of
        None \<Rightarrow> Some (sgoto s i (staleNext (removeStaleSocket path (Inl (Syscall ENOENT)) None None) SUmask))
      | Some Plain \<Rightarrow> Some (sgoto s i (staleNext (removeStaleSocket path (Inr False) None None) SUmask))
      | Some (Sock _ _) \<Rightarrow> Some (sgoto s i SDial))"
| "scall path s i SDial =
     Some (sgoto s i (staleNext (removeStaleSocket path (Inr True) (dialError s) None) SRemove))"
| "scall path s i SRemove =
     (case node s of
        None \<Rightarrow> Some (sgoto s i (Returned (Some (Wrap ''remove stale socket'' (Syscall ENOENT)))))
      | Some _ \<Rightarrow> Some ((sgoto s i SUmask)\<lparr>node := None\<rparr>))"
| "scall path s i SUmask = Some (supdate s i (\<lambda>p. p\<lparr>stg := SBind, prevUmask := umask p, umask := 0x3F\<rparr>))"
| "scall path s i SBind =
     (case node s of
        None \<Rightarrow>
          Some ((sgoto s i SListen)\<lparr>node := Some (Sock (Some i) (and 0x1FF (not (umask (procs s ! i)))))\<rparr>)
      | Some _ \<Rightarrow> Some (sgoto s i (SRestore (Some (OpError ''bind'' (Syscall (Errno 98 ''address already in use'')))))))"
| "scall path s i SListen = Some (supdate s i (\<lambda>p. p\<lparr>stg := SRestore None, up := True\<rparr>))"
| "scall path s i (SRestore r) =
     Some (supdate s i (\<lambda>p. p\<lparr>umask := prevUmask p,
       stg := (case r of None \<Rightarrow> SChmod | Some err \<Rightarrow> Returned (Some (Wrap (''listen on '' @ path) err)))\<rparr>))"
| "scall path s i SChmod =
     (case node s of
        None \<Rightarrow> Some (sgoto s i (SUnlink (Some (Wrap ''chmod socket'' (Syscall ENOENT)))))
      | Some Plain \<Rightarrow> Some (sgoto s i SWatch)
      | Some (Sock owner m) \<Rightarrow> Some ((sgoto s i SWatch)\<lparr>node := Some (Sock owner 0x180)\<rparr>))"
| "scall path s i SWatch = Some (sgoto s i Serving)"
| "scall path s i Serving = None"
| "scall path s i (SUnlink r) = Some ((sgoto s i (SClose r))\<lparr>node := None\<rparr>)"
| "scall path s i (SClose r) = Some (supdate s i (\<lambda>p. p\<lparr>stg := SFinal r, up := False\<rparr>))"
| "scall path s i (SFinal r) = Some ((sgoto s i (Returned r))\<lparr>node := None\<rparr>)"
| "scall path s i (Returned r) = None"
| "scall path s i Killed = None"

text \<open>The next call fails for another reason, with the error \<open>err\<close>.\<close>

fun sfail :: "string \<Rightarrow> goerr \<Rightarrow> sstage \<Rightarrow> sstage option" where
  "sfail path err SMkdir = Some (Returned (Some (Wrap ''create socket dir'' err)))"
| "sfail path err SStat =
     (if go_is err (Syscall ENOENT) then None
      else Some (staleNext (removeStaleSocket path (Inl err) None None) SUmask))"
| "sfail path err SDial =
     (if go_is err (Syscall ENOENT) \<or> go_is err (Syscall ECONNREFUSED) then None
      else Some (staleNext (removeStaleSocket path (Inr True) (Some err) None) SRemove))"
| "sfail path err SRemove = Some (Returned (Some (Wrap ''remove stale socket'' err)))"
| "sfail path err SBind = Some (SRestore (Some err))"
| "sfail path err SChmod = Some (SUnlink (Some (Wrap ''chmod socket'' err)))"
| "sfail path err SWatch =
     (case newConnWatcher (Some err) of
        Inl e \<Rightarrow> Some (SUnlink (Some (Wrap ''conn watcher'' e)))
      | Inr w \<Rightarrow> None)"
| "sfail path err Serving =
     Some (SUnlink (if go_is err ErrClosed then None else Some (Wrap ''accept'' err)))"
| "sfail path err _ = None"

datatype saction =
    SStart "32 word"
  | SCall nat
  | SFail nat goerr
  | SSignal nat
  | SKill nat

fun over :: "sstage \<Rightarrow> bool" where
  "over (Returned r) = True"
| "over Killed = True"
| "over _ = False"

fun sperform :: "string \<Rightarrow> ssys \<Rightarrow> saction \<Rightarrow> ssys option" where
  "sperform path s (SStart um) =
     Some (s\<lparr>procs := procs s @ [\<lparr>stg = SMkdir, umask = um, prevUmask = um, up = False\<rparr>]\<rparr>)"
| "sperform path s (SCall i) =
     (if i < length (procs s) then scall path s i (stg (procs s ! i)) else None)"
| "sperform path s (SFail i err) =
     (if i < length (procs s) then map_option (sgoto s i) (sfail path err (stg (procs s ! i))) else None)"
| "sperform path s (SSignal i) =
     (if sstage_is s i Serving then Some (sgoto s i (SUnlink None)) else None)"
| "sperform path s (SKill i) =
     (if i < length (procs s) \<and> \<not> over (stg (procs s ! i))
      then Some (supdate s i (\<lambda>p. p\<lparr>stg := Killed, up := False\<rparr>)) else None)"

inductive sstep :: "string \<Rightarrow> ssys \<Rightarrow> saction \<Rightarrow> ssys \<Rightarrow> bool" for path where
  sstep: "sperform path s a = Some s' \<Longrightarrow> sstep path s a s'"

inductive_cases sstepE: "sstep path s a s'"

section \<open>The invariant\<close>

fun binding :: "sstage \<Rightarrow> bool" where
  "binding SBind = True"
| "binding SListen = True"
| "binding (SRestore r) = True"
| "binding _ = False"

fun has_file :: "sstage \<Rightarrow> bool" where
  "has_file SListen = True"
| "has_file (SRestore r) = (r = None)"
| "has_file SChmod = True"
| "has_file SWatch = True"
| "has_file Serving = True"
| "has_file (SUnlink r) = True"
| "has_file Killed = True"
| "has_file _ = False"

fun may_listen :: "sstage \<Rightarrow> bool" where
  "may_listen (SRestore r) = (r = None)"
| "may_listen SChmod = True"
| "may_listen SWatch = True"
| "may_listen Serving = True"
| "may_listen (SUnlink r) = True"
| "may_listen (SClose r) = True"
| "may_listen _ = False"

text \<open>What one daemon keeps, and what holds of the file when it is that daemon's.\<close>

definition proc_ok :: "sproc \<Rightarrow> bool" where
  "proc_ok p \<longleftrightarrow>
     (stg p \<noteq> Killed \<longrightarrow> umask p = (if binding (stg p) then 0x3F else prevUmask p))
     \<and> (up p \<longrightarrow> may_listen (stg p))"

definition node_ok :: "ssys \<Rightarrow> bool" where
  "node_ok s \<longleftrightarrow>
     (\<forall>i m. node s = Some (Sock (Some i) m) \<longrightarrow>
        i < length (procs s) \<and> has_file (stg (procs s ! i)) \<and> and m 0x3F = 0
        \<and> (stg (procs s ! i) \<in> {SWatch, Serving} \<longrightarrow> m = 0x180))"

definition ssys_inv :: "ssys \<Rightarrow> bool" where
  "ssys_inv s \<longleftrightarrow> (\<forall>p \<in> set (procs s). proc_ok p) \<and> node_ok s"

lemma procs_update [simp]:
  "length (procs (supdate s i f)) = length (procs s)" "length (procs (sgoto s i st)) = length (procs s)"
  "node (supdate s i f) = node s" "node (sgoto s i st) = node s"
  by (simp_all add: supdate_def sgoto_def)

lemma procs_nth:
  "i < length (procs s) \<Longrightarrow> procs (supdate s i f) ! j = (if j = i then f (procs s ! i) else procs s ! j)"
  "i < length (procs s) \<Longrightarrow> procs (sgoto s i st) ! j = (if j = i then (procs s ! i)\<lparr>stg := st\<rparr> else procs s ! j)"
  by (auto simp: supdate_def sgoto_def nth_list_update)

lemma all_proc_ok: "(\<forall>p \<in> set (procs s). proc_ok p) \<longleftrightarrow> (\<forall>i < length (procs s). proc_ok (procs s ! i))"
  by (auto simp: all_set_conv_all_nth)

lemma private_mode: "and (and 0x1FF (not 0x3F)) 0x3F = (0 :: 32 word)"
  by simp

lemma staleNext_cases: "staleNext act st = st \<or> (\<exists>err. staleNext act st = Returned (Some err))"
  by (cases act) (simp_all add: staleNext_def)

text \<open>One daemon moves on.\<close>

lemma move_inv:
  assumes inv: "ssys_inv s" and i: "i < length (procs s)"
    and s': "procs s' = (procs s)[i := p]" and p: "proc_ok p"
    and n: "\<And>j m. node s' = Some (Sock (Some j) m) \<Longrightarrow>
      (if j = i then has_file (stg p) \<and> and m 0x3F = 0 \<and> (stg p \<in> {SWatch, Serving} \<longrightarrow> m = 0x180)
       else node s = Some (Sock (Some j) m) \<or> m = 0x180 \<and> (\<exists>m0. node s = Some (Sock (Some j) m0)))"
  shows "ssys_inv s'"
proof -
  have "\<forall>q \<in> set (procs s'). proc_ok q"
    using inv p set_update_subset_insert [of "procs s" i p] by (auto simp: ssys_inv_def s')
  moreover have "node_ok s'"
    unfolding node_ok_def
  proof (intro allI impI)
    fix j m
    assume m: "node s' = Some (Sock (Some j) m)"
    from n [OF m] inv i show "j < length (procs s') \<and> has_file (stg (procs s' ! j)) \<and> and m 0x3F = 0
        \<and> (stg (procs s' ! j) \<in> {SWatch, Serving} \<longrightarrow> m = 0x180)"
      by (cases "j = i") (auto simp: s' ssys_inv_def node_ok_def)
  qed
  ultimately show ?thesis by (simp add: ssys_inv_def)
qed

lemma proc_at:
  assumes "ssys_inv s" and "i < length (procs s)"
  shows "proc_ok (procs s ! i)" and "node s = Some (Sock (Some j) m) \<Longrightarrow>
    j < length (procs s) \<and> has_file (stg (procs s ! j)) \<and> and m 0x3F = 0 \<and> (stg (procs s ! j) \<in> {SWatch, Serving} \<longrightarrow> m = 0x180)"
  using assms by (auto simp: ssys_inv_def node_ok_def)

text \<open>A daemon that owns no file, and makes none, moves on without touching the file.\<close>

lemma quiet_move:
  assumes inv: "ssys_inv s" and i: "i < length (procs s)" and st: "stg (procs s ! i) = st0"
    and s': "procs s' = (procs s)[i := p]" "node s' = node s \<or> node s' = None"
    and p: "proc_ok p" and f: "has_file st0 \<and> node s' = node s \<and> (\<exists>m. node s = Some (Sock (Some i) m)) \<Longrightarrow> has_file (stg p) \<and> (stg p \<in> {SWatch, Serving} \<longrightarrow> st0 \<in> {SWatch, Serving})"
  shows "ssys_inv s'"
proof (rule move_inv [OF inv i s'(1) p])
  fix j m
  assume m: "node s' = Some (Sock (Some j) m)"
  with s'(2) have n: "node s = Some (Sock (Some j) m)" "node s' = node s" by auto
  from proc_at(2) [OF inv i n(1)] f n(2) st
  show "if j = i then has_file (stg p) \<and> and m 0x3F = 0 \<and> (stg p \<in> {SWatch, Serving} \<longrightarrow> m = 0x180)
      else node s = Some (Sock (Some j) m) \<or> m = 0x180 \<and> (\<exists>m0. node s = Some (Sock (Some j) m0))"
    using n(1) by auto
qed

lemma scall_inv:
  assumes inv: "ssys_inv s" and i: "i < length (procs s)" and st: "stg (procs s ! i) = st0"
    and c: "scall path s i st0 = Some s'"
  shows "ssys_inv s'"
proof -
  have ok: "proc_ok (procs s ! i)" using proc_at(1) [OF inv i] .
  note quiet = quiet_move [OF inv i st]
  show ?thesis
  proof (cases st0)
    case SBind
    show ?thesis
    proof (cases "node s")
      case None
      with c SBind have s': "s' = (sgoto s i SListen)\<lparr>node := Some (Sock (Some i) (and 0x1FF (not (umask (procs s ! i)))))\<rparr>"
        by simp
      have "umask (procs s ! i) = 0x3F" using ok st SBind by (simp add: proc_ok_def)
      then show ?thesis
        unfolding s' using ok st SBind
        by (intro move_inv [OF inv i, of _ "(procs s ! i)\<lparr>stg := SListen\<rparr>"])
           (auto simp: sgoto_def supdate_def proc_ok_def)
    next
      case (Some f)
      with c SBind ok st show ?thesis
        by (intro quiet) (auto simp: sgoto_def supdate_def proc_ok_def)
    qed
  next
    case SChmod
    show ?thesis
    proof (cases "\<exists>owner m. node s = Some (Sock owner m)")
      case True
      then obtain owner m where n: "node s = Some (Sock owner m)" by blast
      with c SChmod have s': "s' = (sgoto s i SWatch)\<lparr>node := Some (Sock owner 0x180)\<rparr>" by simp
      show ?thesis
        unfolding s' using ok st SChmod n
        by (intro move_inv [OF inv i, of _ "(procs s ! i)\<lparr>stg := SWatch\<rparr>"])
           (auto simp: sgoto_def supdate_def proc_ok_def)
    next
      case False
      with c SChmod ok st show ?thesis
        by (cases "node s"; intro quiet)
           (auto simp: sgoto_def supdate_def proc_ok_def split: option.splits fentry.splits)
    qed
  next
    case SStat
    obtain st1 where s': "s' = sgoto s i st1" "st1 \<in> {SUmask, SDial} \<or> (\<exists>err. st1 = Returned (Some err))"
      using c SStat staleNext_cases [of "removeStaleSocket path (Inl (Syscall ENOENT)) None None" SUmask]
        staleNext_cases [of "removeStaleSocket path (Inr False) None None" SUmask]
      by (auto split: option.splits fentry.splits)
    then show ?thesis using SStat ok st
      by (intro quiet [of _ "(procs s ! i)\<lparr>stg := st1\<rparr>"]) (auto simp: sgoto_def supdate_def proc_ok_def)
  next
    case SDial
    obtain st1 where s': "s' = sgoto s i st1" "st1 = SRemove \<or> (\<exists>err. st1 = Returned (Some err))"
      using c SDial staleNext_cases [of "removeStaleSocket path (Inr True) (dialError s) None" SRemove] by auto
    then show ?thesis using SDial ok st
      by (intro quiet [of _ "(procs s ! i)\<lparr>stg := st1\<rparr>"]) (auto simp: sgoto_def supdate_def proc_ok_def)
  qed (use c ok st in \<open>auto intro!: quiet simp: sgoto_def supdate_def proc_ok_def split: option.splits\<close>)
qed

lemma sfail_inv:
  assumes inv: "ssys_inv s" and i: "i < length (procs s)" and st: "stg (procs s ! i) = st0"
    and c: "sfail path err st0 = Some st1"
  shows "ssys_inv (sgoto s i st1)"
proof -
  have ok: "proc_ok (procs s ! i)" using proc_at(1) [OF inv i] .
  have "\<not> has_file st0 \<and> \<not> binding st0 \<and> (\<exists>e. st1 = Returned e) \<or> st0 \<in> {SStat, SDial} \<and> st1 \<in> {SUmask, SRemove}
      \<or> st0 = SBind \<and> (\<exists>e. st1 = SRestore e) \<or> st0 \<in> {SChmod, SWatch, Serving} \<and> (\<exists>e. st1 = SUnlink e)"
    using c staleNext_cases [of "removeStaleSocket path (Inl err) None None" SUmask]
      staleNext_cases [of "removeStaleSocket path (Inr True) (Some err) None" SRemove]
    by (cases st0) (auto simp: newConnWatcher_def split: if_splits)
  moreover have "st0 \<noteq> SClose e" for e using c by (cases st0) auto
  ultimately show ?thesis
    using ok st by (intro quiet_move [OF inv i st, of _ "(procs s ! i)\<lparr>stg := st1\<rparr>"])
      (auto simp: sgoto_def supdate_def proc_ok_def elim!: may_listen.elims)
qed

lemma sstep_inv:
  assumes st: "sstep path s a s'" and inv: "ssys_inv s"
  shows "ssys_inv s'"
proof -
  from st have p: "sperform path s a = Some s'" by (rule sstepE)
  show ?thesis
  proof (cases a)
    case (SStart um)
    with p inv show ?thesis by (auto simp: ssys_inv_def node_ok_def proc_ok_def nth_append)
  next
    case (SCall i)
    with p scall_inv [OF inv] show ?thesis by (auto split: if_splits)
  next
    case (SFail i err)
    with p sfail_inv [OF inv] show ?thesis by (auto split: if_splits)
  next
    case (SSignal i)
    with p have "i < length (procs s)" "stg (procs s ! i) = Serving" "s' = sgoto s i (SUnlink None)"
      by (auto simp: sstage_is_def split: if_splits)
    with proc_at(1) [OF inv] show ?thesis
      by (intro quiet_move [OF inv]) (auto simp: sgoto_def supdate_def proc_ok_def)
  next
    case (SKill i)
    with p have i: "i < length (procs s)" "s' = supdate s i (\<lambda>p. p\<lparr>stg := Killed, up := False\<rparr>)"
      by (auto split: if_splits)
    then show ?thesis
      by (intro quiet_move [OF inv i(1) refl]) (auto simp: supdate_def proc_ok_def)
  qed
qed

interpretation lifecycle: transition_invariant ssys_init "sstep path" "\<lambda>_. ssys_inv" for path
proof
  fix s
  assume "ssys_init s"
  then show "ssys_inv s" by (auto simp: ssys_init_def ssys_inv_def node_ok_def)
qed (rule sstep_inv)

section \<open>What the socket's life guarantees\<close>


text \<open>
  A settled daemon: it serves on the file at the path, and every other daemon has ended or has not
  come past dialling it.
\<close>

definition settled :: "ssys \<Rightarrow> nat \<Rightarrow> bool" where
  "settled s i \<longleftrightarrow>
     sstage_is s i Serving \<and> up (procs s ! i) \<and> (\<exists>m. node s = Some (Sock (Some i) m))
     \<and> (\<forall>j < length (procs s). j \<noteq> i \<longrightarrow>
          stg (procs s ! j) \<in> {SMkdir, SStat, SDial, Killed} \<or> (\<exists>r. stg (procs s ! j) = Returned r))"

fun ends :: "nat \<Rightarrow> saction \<Rightarrow> bool" where
  "ends i (SSignal j) = (j = i)"
| "ends i (SKill j) = (j = i)"
| "ends i (SFail j err) = (j = i)"
| "ends i a = False"

lemma settled_dial: "settled s i \<Longrightarrow> dialError s = None"
  by (auto simp: settled_def sstage_is_def dialError_def)

lemma settled_other:
  assumes "settled s i" and "j \<noteq> i" and "j < length (procs s)"
    and "st \<in> {SMkdir, SStat, SDial, Killed} \<or> (\<exists>r. st = Returned r)"
  shows "settled (sgoto s j st) i"
  using assms by (auto simp: settled_def sstage_is_def sgoto_def supdate_def nth_list_update)

text \<open>Where a daemon may be while another is settled.\<close>

fun outside :: "sstage \<Rightarrow> bool" where
  "outside SMkdir = True"
| "outside SStat = True"
| "outside SDial = True"
| "outside Killed = True"
| "outside (Returned r) = True"
| "outside _ = False"

lemma outside_iff: "outside st \<longleftrightarrow> st \<in> {SMkdir, SStat, SDial, Killed} \<or> (\<exists>r. st = Returned r)"
  by (cases st) simp_all

lemma outside_call:
  assumes "outside st" and "node s = Some (Sock owner m)" and "dialError s = None" and "scall path s j st = Some s'"
  shows "\<exists>st'. outside st' \<and> s' = sgoto s j st'"
proof (cases st)
  case SDial
  with assms(3,4) have "s' = sgoto s j (Returned (Some (Text (''daemon already running at '' @ path))))"
    by (simp add: staleNext_def removeStaleSocket_def)
  then show ?thesis by (intro exI [of _ "Returned (Some (Text (''daemon already running at '' @ path)))"]) simp
next
  case SMkdir
  with assms(4) show ?thesis by (intro exI [of _ SStat]) simp
next
  case SStat
  with assms(2,4) show ?thesis by (intro exI [of _ SDial]) simp
qed (use assms(1,4) in simp_all)

lemma outside_fail:
  assumes "outside st" and "sfail path err st = Some st'"
  shows "outside st'"
proof (cases st)
  case SStat
  with assms(2) show ?thesis by (simp add: staleNext_def removeStaleSocket_def split: if_splits) auto
next
  case SDial
  with assms(2) show ?thesis by (simp add: staleNext_def removeStaleSocket_def split: if_splits) auto
qed (use assms in auto)

lemma settled_step:
  assumes st: "sstep path s a s'" and set: "settled s i" and e: "\<not> ends i a"
  shows "settled s' i"
proof -
  from st have p: "sperform path s a = Some s'" by (rule sstepE)
  obtain m where n: "node s = Some (Sock (Some i) m)" and i: "stg (procs s ! i) = Serving"
    using set by (auto simp: settled_def sstage_is_def)
  have other: "outside (stg (procs s ! j))" if "j < length (procs s)" "j \<noteq> i" for j
    using set that by (auto simp: settled_def outside_iff)
  show ?thesis
  proof (cases a)
    case (SStart um)
    with p set show ?thesis by (auto simp: settled_def sstage_is_def nth_append less_Suc_eq) blast
  next
    case (SCall j)
    with p i have j: "j < length (procs s)" "j \<noteq> i" "scall path s j (stg (procs s ! j)) = Some s'"
      by (auto split: if_splits)
    from outside_call [OF other [OF j(1,2)] n settled_dial [OF set] j(3)] obtain st'
      where "outside st'" "s' = sgoto s j st'" by blast
    with settled_other [OF set j(2,1)] show ?thesis by (simp add: outside_iff)
  next
    case (SFail j err)
    with p e have j: "j < length (procs s)" "j \<noteq> i" "map_option (sgoto s j) (sfail path err (stg (procs s ! j))) = Some s'"
      by (auto split: if_splits)
    then obtain st' where st': "sfail path err (stg (procs s ! j)) = Some st'" "s' = sgoto s j st'" by blast
    with outside_fail [OF other [OF j(1,2)]] settled_other [OF set j(2,1)] show ?thesis by (simp add: outside_iff)
  next
    case (SSignal j)
    with p e have "j < length (procs s)" "j \<noteq> i" "stg (procs s ! j) = Serving"
      by (auto simp: sstage_is_def split: if_splits)
    with other [of j] show ?thesis by simp
  next
    case (SKill j)
    with p e have "j < length (procs s)" "j \<noteq> i" "s' = supdate s j (\<lambda>p. p\<lparr>stg := Killed, up := False\<rparr>)"
      by (auto split: if_splits)
    with set show ?thesis by (auto simp: settled_def sstage_is_def supdate_def nth_list_update)
  qed
qed

interpretation exclusive: transition_invariant "\<lambda>s. settled s i" "\<lambda>s a s'. sstep path s a s' \<and> \<not> ends i a"
  "\<lambda>_ s. settled s i" for path i
  by unfold_locales (auto intro: settled_step)

text \<open>
  Property C25. A settled daemon stays the only one: whatever daemons are started after it on the same
  path, and however they and the system's failures interleave, none of them serves or touches the file
  as long as it runs, and one that dials it gives up because a daemon is already running.
\<close>

theorem settled_daemon_is_exclusive:
  assumes "execution (\<lambda>s. settled s i) (\<lambda>s a s'. sstep path s a s' \<and> \<not> ends i a) as s"
  shows "sstage_is s i Serving \<and> (\<exists>m. node s = Some (Sock (Some i) m))
    \<and> (j \<noteq> i \<longrightarrow> \<not> sstage_is s j Serving)
    \<and> (sstage_is s j SDial \<longrightarrow> sperform path s (SCall j)
      = Some (sgoto s j (Returned (Some (Text (''daemon already running at '' @ path))))))"
  using exclusive.always [OF assms] settled_dial [of s i]
  by (auto simp: settled_def sstage_is_def staleNext_def removeStaleSocket_def)

section \<open>Concrete runs\<close>

interpretation daemons: scheduler ssys_init "sstep path" "\<lambda>s a. map_option (Pair a) (sperform path s a)" for path
  by unfold_locales (auto intro: sstep)

definition no_daemon :: ssys where
  "no_daemon = \<lparr>procs = [], node = None\<rparr>"

definition sleads :: "saction list \<Rightarrow> (ssys \<Rightarrow> bool) \<Rightarrow> bool" where
  "sleads as P = run_leads (\<lambda>s a. map_option (Pair a) (sperform ''/s'' s a)) no_daemon as (\<lambda>es. P)"

lemma sleads_execution:
  assumes "sleads as P"
  obtains es s where "execution ssys_init (sstep ''/s'') es s" and "P s"
  using daemons.leads [OF assms [unfolded sleads_def]] by (auto simp: ssys_init_def no_daemon_def)

definition calls :: "nat \<Rightarrow> nat \<Rightarrow> saction list" where
  "calls n i = replicate n (SCall i)"

text \<open>Eight calls bring a daemon from its start to serving when nothing is at the path.\<close>

definition serving_run :: "saction list" where
  "serving_run = SStart 0x12 # calls 8 0"

text \<open>
  Daemon 0 has bound its socket but does not listen yet when daemon 1 dials it, takes it for stale and
  removes it.
\<close>

definition displaced_run :: "saction list" where
  "displaced_run = [SStart 0x12, SStart 0x12] @ calls 4 0 @ calls 10 1 @ calls 4 0"

text \<open>
  Daemon 0 is told to stop and has closed its listener; daemon 1 starts; then daemon 0's deferred
  \<open>os.Remove\<close> runs.
\<close>

definition restarted_run :: "saction list" where
  "restarted_run = serving_run @ [SSignal 0] @ calls 2 0 @ [SStart 0x12] @ calls 8 1 @ calls 1 0"


lemma settled_daemon_is_exclusive_witness:
  "\<exists>s. settled s 0 \<and> sstage_is s 1 SDial \<and> \<not> sstage_is s 1 Serving \<and> sperform ''/s'' s (SCall 1)
      = Some (sgoto s 1 (Returned (Some (Text ''daemon already running at /s''))))"
proof -
  let ?s = "\<lparr>procs = [\<lparr>stg = Serving, umask = 0x12, prevUmask = 0x12, up = True\<rparr>,
                     \<lparr>stg = SDial, umask = 0x12, prevUmask = 0x12, up = False\<rparr>],
            node = Some (Sock (Some 0) 0x180)\<rparr>"
  have set: "settled ?s 0" by (auto simp: settled_def sstage_is_def less_Suc_eq)
  then have "execution (\<lambda>s. settled s 0) (\<lambda>s a s'. sstep ''/s'' s a s' \<and> \<not> ends 0 a) [] ?s"
    by (rule exec_start)
  from set settled_daemon_is_exclusive [OF this, where j = 1] show ?thesis
    by (intro exI [of _ ?s]) (simp add: sstage_is_def)
qed


end
