(* ===== verification/Stress.thy ===== *)
theory Stress
  imports Client CliProps
begin

text \<open>
  The stress command (\<open>stress.go\<close>): its options, the number of workers, the payloads, and the loops of
  its producers and consumers on their connections. \<open>StressRun\<close> puts them together.
\<close>

section \<open>Options\<close>

record stressConfig =
  sSocket :: string
  sDuration :: int
  sThreads :: int
  sPublishers :: int
  sConsumers :: int
  sChannels :: "string list"
  sPopTimeout :: int
  sPayloadLen :: int
  sFormat :: string

definition stressDefaults :: "env \<Rightarrow> stressConfig" where
  "stressDefaults env =
     \<lparr>sSocket = defaultSocketPath env, sDuration = 10000000000, sThreads = 1000, sPublishers = 0,
      sConsumers = 0, sChannels = [''stress-a'', ''stress-b'', ''stress-c'', ''stress-d''],
      sPopTimeout = 200000000, sPayloadLen = 128, sFormat = ''text''\<rparr>"

definition parsePositiveInt :: "string \<Rightarrow> string \<Rightarrow> goerr + int" where
  "parsePositiveInt value name =
     (case parseInt ''Atoi'' value of
        Inl err \<Rightarrow> Inl (Wrap (''invalid '' @ name) err)
      | Inr n \<Rightarrow> if n \<le> 0 then Inl (Text (name @ '' must be > 0'')) else Inr n)"

definition splitCSV :: "string \<Rightarrow> string list" where
  "splitCSV value = filter (\<lambda>part. part \<noteq> []) (map trimSpace (splitOn CHR '','' value))"

definition mustOptionValue :: "string \<Rightarrow> string \<Rightarrow> string" where
  "mustOptionValue arg name = fst (trimOption arg name)"

text \<open>What each option does with its value, in the order of the cases of the code.\<close>

definition stressOptions :: "(string \<times> (string \<Rightarrow> stressConfig \<Rightarrow> goerr + stressConfig)) list" where
  "stressOptions =
     [(''--socket'', \<lambda>v cfg. Inr (cfg\<lparr>sSocket := v\<rparr>)),
      (''--duration'', \<lambda>v cfg.
         map_sum (Wrap ''invalid duration'') (\<lambda>d. cfg\<lparr>sDuration := d\<rparr>) (parseDuration v)),
      (''--threads'', \<lambda>v cfg. map_sum id (\<lambda>n. cfg\<lparr>sThreads := n\<rparr>) (parsePositiveInt v ''threads'')),
      (''--publishers'', \<lambda>v cfg.
         map_sum id (\<lambda>n. cfg\<lparr>sPublishers := n\<rparr>) (parsePositiveInt v ''publishers'')),
      (''--consumers'', \<lambda>v cfg.
         map_sum id (\<lambda>n. cfg\<lparr>sConsumers := n\<rparr>) (parsePositiveInt v ''consumers'')),
      (''--channels'', \<lambda>v cfg. Inr (cfg\<lparr>sChannels := splitCSV v\<rparr>)),
      (''--pop-timeout'', \<lambda>v cfg.
         map_sum (Wrap ''invalid pop-timeout'') (\<lambda>d. cfg\<lparr>sPopTimeout := d\<rparr>) (parseDuration v)),
      (''--payload-size'', \<lambda>v cfg.
         map_sum id (\<lambda>n. cfg\<lparr>sPayloadLen := n\<rparr>) (parsePositiveInt v ''payload-size'')),
      (''--format'', \<lambda>v cfg. Inr (cfg\<lparr>sFormat := v\<rparr>))]"

fun stressArgs :: "(string \<Rightarrow> string) \<Rightarrow> stressConfig \<Rightarrow> string list \<Rightarrow> goerr + stressConfig" where
  "stressArgs q cfg [] = Inr cfg"
| "stressArgs q cfg (arg # rest) =
     (case map_of stressOptions arg of
        Some assign \<Rightarrow>
          (case rest of
             [] \<Rightarrow> Inl (missingValue arg)
           | value # others \<Rightarrow>
               (case assign value cfg of
                  Inl err \<Rightarrow> Inl err
                | Inr cfg1 \<Rightarrow> stressArgs q cfg1 others))
      | None \<Rightarrow>
          (case find (\<lambda>(name, _). hasLongOption arg name) stressOptions of
             Some (name, assign) \<Rightarrow>
               (case assign (mustOptionValue arg name) cfg of
                  Inl err \<Rightarrow> Inl err
                | Inr cfg1 \<Rightarrow> stressArgs q cfg1 rest)
           | None \<Rightarrow> Inl (Text (''unknown stress option '' @ q arg))))"

definition checkStress :: "stressConfig \<Rightarrow> goerr + stressConfig" where
  "checkStress cfg =
     (if sDuration cfg \<le> 0 then Inl (Text ''duration must be > 0'')
      else if sThreads cfg \<le> 0 then Inl (Text ''threads must be > 0'')
      else if sPopTimeout cfg \<le> 0 then Inl (Text ''pop-timeout must be > 0'')
      else if sPayloadLen cfg \<le> 0 then Inl (Text ''payload-size must be > 0'')
      else if sChannels cfg = [] then Inl NoChannels
      else if (sPublishers cfg \<noteq> 0 \<or> sConsumers cfg \<noteq> 0) \<and> (sPublishers cfg \<le> 0 \<or> sConsumers cfg \<le> 0)
      then Inl (Text ''publishers and consumers must both be > 0 when either is set'')
      else let cfg1 = (if sPublishers cfg \<noteq> 0 \<or> sConsumers cfg \<noteq> 0
                       then cfg\<lparr>sThreads := i64 (sPublishers cfg + sConsumers cfg)\<rparr> else cfg)
           in if sFormat cfg1 \<noteq> ''text'' \<and> sFormat cfg1 \<noteq> ''json''
              then Inl (Text ''format must be text or json'') else Inr cfg1)"

definition parseStressArgs :: "(string \<Rightarrow> string) \<Rightarrow> env \<Rightarrow> string list \<Rightarrow> goerr + stressConfig" where
  "parseStressArgs q env args =
     (case stressArgs q (stressDefaults env) args of
        Inl err \<Rightarrow> Inl err
      | Inr cfg \<Rightarrow> checkStress cfg)"

section \<open>Workers\<close>

text \<open>Go's division truncates toward zero.\<close>

definition stressWorkerCounts :: "stressConfig \<Rightarrow> int \<times> int" where
  "stressWorkerCounts cfg =
     (if sPublishers cfg > 0 \<and> sConsumers cfg > 0 then (sPublishers cfg, sConsumers cfg)
      else let half = (if sThreads cfg < 0 then - ((- sThreads cfg) div 2) else sThreads cfg div 2);
               producers = (if half < 1 then 1 else half);
               consumers = i64 (sThreads cfg - producers)
           in (producers, if consumers < 1 then 1 else consumers))"

section \<open>Payloads\<close>

text \<open>\<open>rng k\<close> is the result of the \<open>k\<close>-th call of \<open>rng.Uint64\<close>.\<close>

definition byteAt :: "64 word \<Rightarrow> nat \<Rightarrow> byte" where
  "byteAt u j = ucast (drop_bit (8 * j) u)"

fun fillRaw :: "(nat \<Rightarrow> 64 word) \<Rightarrow> nat \<Rightarrow> nat \<Rightarrow> bytes" where
  "fillRaw rng k m =
     (if m = 0 then []
      else let n = min 8 m in map (byteAt (rng k)) [0..<n] @ fillRaw rng (k + 1) (m - n))"

declare fillRaw.simps [simp del]

definition hexDigit :: "nat \<Rightarrow> char" where
  "hexDigit d = (if d < 10 then char_of (48 + d) else char_of (87 + d))"

definition hexEncode :: "bytes \<Rightarrow> string" where
  "hexEncode bs = concat (map (\<lambda>b. [hexDigit (unat b div 16), hexDigit (unat b mod 16)]) bs)"

definition makeStressPayload :: "int \<Rightarrow> int \<Rightarrow> nat \<Rightarrow> (nat \<Rightarrow> 64 word) \<Rightarrow> bytes" where
  "makeStressPayload workerID seq len rng =
     (let prefix = ''worker='' @ dec_int workerID @ '' seq='' @ dec_int seq @ '' '' in
      if length prefix \<ge> len then to_bytes (take len prefix)
      else let body = hexEncode (fillRaw rng 0 ((len - length prefix + 1) div 2))
           in to_bytes (prefix @ (if length body > len - length prefix
                                  then take (len - length prefix) body else body)))"

section \<open>Producers and consumers\<close>

record stressStats =
  pushed :: nat
  served :: nat
  popTimeouts :: nat
  failures :: nat

text \<open>
  A producer's loop: each element of \<open>picks\<close> is an iteration that begins before the deadline, with
  the index \<open>rng.IntN\<close> gives and the random numbers of the payload. A consumer's loop runs as many
  iterations as begin before the deadline.
\<close>

fun producerLoop ::
    "string list \<Rightarrow> int \<Rightarrow> nat \<Rightarrow> rpcClient \<Rightarrow> int \<Rightarrow> (nat \<times> (nat \<Rightarrow> 64 word)) list \<Rightarrow> stressStats \<Rightarrow> stressStats" where
  "producerLoop channels workerID payloadLen client seq [] st = st"
| "producerLoop channels workerID payloadLen client seq ((i, rng) # picks) st =
     (case clientPush client (channels ! i) (makeStressPayload workerID seq payloadLen rng) of
        (Some err, client1) \<Rightarrow> st\<lparr>failures := failures st + 1\<rparr>
      | (None, client1) \<Rightarrow>
          producerLoop channels workerID payloadLen client1 (i64 (seq + 1)) picks (st\<lparr>pushed := pushed st + 1\<rparr>))"

fun consumerLoop :: "(string \<Rightarrow> string) \<Rightarrow> rpcClient \<Rightarrow> string list \<Rightarrow> int \<Rightarrow> nat \<Rightarrow> stressStats \<Rightarrow> stressStats" where
  "consumerLoop q client channels timeout 0 st = st"
| "consumerLoop q client channels timeout (Suc n) st =
     (case clientPop client channels (milliseconds timeout) of
        (Inl err, client1) \<Rightarrow> st\<lparr>failures := failures st + 1\<rparr>
      | (Inr resp, client1) \<Rightarrow>
          if \<not> respOK resp then
            if respError resp = error_text q ErrTimeout
            then consumerLoop q client1 channels timeout n (st\<lparr>popTimeouts := popTimeouts st + 1\<rparr>)
            else consumerLoop q client1 channels timeout n (st\<lparr>failures := failures st + 1\<rparr>)
          else consumerLoop q client1 channels timeout n (st\<lparr>served := served st + 1\<rparr>))"

definition noStats :: stressStats where
  "noStats = \<lparr>pushed = 0, served = 0, popTimeouts = 0, failures = 0\<rparr>"

text \<open>A worker whose connection fails counts one failure; \<open>dialled\<close> is \<open>newRPCClient(cfg.socket, false)\<close>.\<close>

definition stressProducer ::
    "stressConfig \<Rightarrow> int \<Rightarrow> goerr + rpcClient \<Rightarrow> (nat \<times> (nat \<Rightarrow> 64 word)) list \<Rightarrow> stressStats \<Rightarrow> stressStats" where
  "stressProducer cfg workerID dialled picks st =
     (case dialled of
        Inl err \<Rightarrow> st\<lparr>failures := failures st + 1\<rparr>
      | Inr client \<Rightarrow> producerLoop (sChannels cfg) workerID (nat (sPayloadLen cfg)) client 0 picks st)"

definition stressConsumer ::
    "(string \<Rightarrow> string) \<Rightarrow> stressConfig \<Rightarrow> goerr + rpcClient \<Rightarrow> nat \<Rightarrow> stressStats \<Rightarrow> stressStats" where
  "stressConsumer q cfg dialled n st =
     (case dialled of
        Inl err \<Rightarrow> st\<lparr>failures := failures st + 1\<rparr>
      | Inr client \<Rightarrow> consumerLoop q client (sChannels cfg) (sPopTimeout cfg) n st)"

text \<open>
  \<open>runStress\<close> up to the timed run: the options, the channels, and one pop of a millisecond that starts
  the daemon where none listens. \<open>trip\<close> is the round trip on a socket.
\<close>

definition stressProbe :: "stressConfig \<Rightarrow> request" where
  "stressProbe cfg =
     \<lparr>reqOp = ''pop'', reqChannels = sChannels cfg, reqPayload = [], reqTimeoutMS = 1\<rparr>"

definition runStressStart ::
    "(string \<Rightarrow> string) \<Rightarrow> env \<Rightarrow> (string \<Rightarrow> request \<Rightarrow> goerr + response) \<Rightarrow> string list \<Rightarrow> result + stressConfig" where
  "runStressStart q env trip args =
     (case parseStressArgs q env args of
        Inl err \<Rightarrow> Inl (usageError q ''stress'' err)
      | Inr cfg \<Rightarrow>
          (case firstInvalidChannel (sChannels cfg) of
             Some err \<Rightarrow> Inl (runtimeError q err)
           | None \<Rightarrow>
               (case trip (sSocket cfg) (stressProbe cfg) of
                  Inl err \<Rightarrow> Inl (clientError q err)
                | Inr resp \<Rightarrow>
                    if \<not> respOK resp \<and> respError resp \<noteq> error_text q ErrTimeout
                    then Inl (runtimeError q (Text (respError resp)))
                    else Inr cfg)))"

section \<open>Lemmas\<close>

lemma length_fillRaw [simp]: "length (fillRaw rng k m) = m"
  by (induction rng k m rule: fillRaw.induct) (subst fillRaw.simps, auto simp: Let_def)

lemma length_hexEncode [simp]: "length (hexEncode bs) = 2 * length bs"
  by (induction bs) (simp_all add: hexEncode_def)

text \<open>
  Fact. A stress payload has exactly the requested size, whatever the worker, the sequence
  number and the random numbers.
\<close>

lemma stress_payload_size: "length (makeStressPayload workerID seq len rng) = len"
proof -
  define prefix where "prefix = ''worker='' @ dec_int workerID @ '' seq='' @ dec_int seq @ '' ''"
  have "length prefix + (len - length prefix) = len" if "length prefix < len" using that by simp
  moreover have "2 * ((k + 1) div 2) \<le> k \<longrightarrow> 2 * ((k + 1) div 2) = k" for k :: nat by presburger
  ultimately show ?thesis
    unfolding makeStressPayload_def prefix_def [symmetric] by (auto simp: Let_def min_def)
qed

lemma checkStress_Inr: "checkStress cfg = Inr cfg' \<Longrightarrow>
    0 < sDuration cfg' \<and> 0 < sPopTimeout cfg' \<and> 0 < sPayloadLen cfg' \<and> sChannels cfg' \<noteq> []
    \<and> (sPublishers cfg' = 0 \<and> sConsumers cfg' = 0 \<and> 0 < sThreads cfg' \<or> 0 < sPublishers cfg' \<and> 0 < sConsumers cfg')
    \<and> (sFormat cfg' = ''text'' \<or> sFormat cfg' = ''json'')"
  by (auto simp: checkStress_def Let_def split: if_splits)

lemma parsePositiveInt_Inr: "parsePositiveInt v name = Inr n \<Longrightarrow> in_i64 n \<and> 0 < n"
  using parseInt_in_i64 [of "''Atoi''" v n] by (auto simp: parsePositiveInt_def split: sum.splits if_splits)

lemma map_sum_Inr: "map_sum f g r = Inr y \<Longrightarrow> \<exists>x. r = Inr x \<and> y = g x"
  by (cases r) auto

lemma stressOptions_i64:
  assumes "(name, f) \<in> set stressOptions" and "f v cfg = Inr cfg'" and "in_i64 (sThreads cfg)"
  shows "in_i64 (sThreads cfg')"
  using assms by (auto simp: stressOptions_def dest!: map_sum_Inr parsePositiveInt_Inr)

lemma stressArgs_i64: "stressArgs q cfg args = Inr cfg' \<Longrightarrow> in_i64 (sThreads cfg) \<Longrightarrow> in_i64 (sThreads cfg')"
proof (induction q cfg args rule: stressArgs.induct)
  case (1 q cfg)
  then show ?case by simp
next
  case (2 q cfg arg rest)
  show ?case
  proof (cases "map_of stressOptions arg")
    case (Some f)
    then have mem: "(arg, f) \<in> set stressOptions" by (rule map_of_SomeD)
    from 2(3) Some obtain v others c1 where "rest = v # others" "f v cfg = Inr c1" "stressArgs q c1 others = Inr cfg'"
      by (auto split: list.splits sum.splits)
    with 2(2) [OF Some] stressOptions_i64 [OF mem] 2(4) show ?thesis by blast
  next
    case None
    from 2(3) None obtain name f c1 where f: "find (\<lambda>(name, _). hasLongOption arg name) stressOptions = Some (name, f)"
      "f (mustOptionValue arg name) cfg = Inr c1" "stressArgs q c1 rest = Inr cfg'"
      by (auto split: option.splits sum.splits)
    then have "(name, f) \<in> set stressOptions" by (metis find_Some_iff nth_mem)
    then have "in_i64 (sThreads c1)" using stressOptions_i64 f(2) 2(4) by blast
    with 2(1) [OF None f(1) refl f(2,3)] show ?thesis by blast
  qed
qed

text \<open>
  Fact. Accepted options start at least one producer and one consumer, and as many workers as
  asked for: the publishers and consumers given, or else the number of threads, but never fewer than
  two.
\<close>

lemma stress_worker_counts:
  assumes "parseStressArgs q env args = Inr cfg" and "stressWorkerCounts cfg = (producers, consumers)"
  shows "1 \<le> producers \<and> 1 \<le> consumers
    \<and> producers + consumers = (if 0 < sPublishers cfg then sPublishers cfg + sConsumers cfg else max 2 (sThreads cfg))"
proof -
  obtain c0 where c0: "stressArgs q (stressDefaults env) args = Inr c0" "checkStress c0 = Inr cfg"
    using assms(1) by (auto simp: parseStressArgs_def split: sum.splits)
  have "in_i64 (sThreads c0)"
    using stressArgs_i64 [OF c0(1)] by (simp add: stressDefaults_def in_i64_def)
  then have "in_i64 (sThreads cfg)" using c0(2) by (auto simp: checkStress_def Let_def split: if_splits)
  moreover have "sPublishers cfg = 0 \<and> sConsumers cfg = 0 \<and> 0 < sThreads cfg \<or> 0 < sPublishers cfg \<and> 0 < sConsumers cfg"
    using checkStress_Inr [OF c0(2)] by blast
  moreover have "i64 (t - p) = t - p" if "in_i64 t" "0 < t" "1 \<le> p" "p \<le> max 1 t" for t p :: int
    using that by (intro i64_bounded) (auto simp: in_i64_def)
  ultimately show ?thesis
    using assms(2) by (auto simp: stressWorkerCounts_def Let_def split: if_splits)
qed

lemma stress_worker_counts_witness:
  "stressWorkerCounts (stressDefaults plain_env\<lparr>sThreads := 7\<rparr>) = (3, 4)"
proof -
  have ok: "parseStressArgs id plain_env [''--threads'', ''7''] = Inr (stressDefaults plain_env\<lparr>sThreads := 7\<rparr>)"
    by code_simp
  obtain p c where pc: "stressWorkerCounts (stressDefaults plain_env\<lparr>sThreads := 7\<rparr>) = (p, c)"
    by (cases "stressWorkerCounts (stressDefaults plain_env\<lparr>sThreads := 7\<rparr>)") auto
  have "p + c = 7" using stress_worker_counts [OF ok pc] by (simp add: stressDefaults_def)
  moreover have "p = 3" using pc by (simp add: stressWorkerCounts_def stressDefaults_def Let_def)
  ultimately show ?thesis using pc by simp
qed

lemma readResponse_empty: "rdata r = [] \<Longrightarrow> \<exists>e. readResponse r = (Inl e, r)"
  by (simp add: readResponse_def rd_bind_def readByte_def)

end
