(* ===== verification/Report.thy ===== *)
theory Report
  imports Duration Cli
begin

text \<open>
  What the reports of the load generators use of the standard library: durations as seconds and as text,
  numbers with a fixed number of decimals, and JSON. A \<open>float64\<close> is the rational it stands for; the numbers
  here are not negative, and the elapsed time is a reading of a monotonic clock.
\<close>

section \<open>Durations\<close>

text \<open>\<open>Duration.Seconds\<close>: the whole seconds and the rest are converted and added.\<close>

definition secondsOf :: "int \<Rightarrow> rat" where
  "secondsOf d =
     float64 (float64 (of_int (d div 1000000000)) + float64 (of_int (d mod 1000000000) / 1000000000))"

text \<open>\<open>Duration.Round\<close>: halves are rounded up; a sum past the range is the largest duration.\<close>

definition durationRound :: "int \<Rightarrow> int \<Rightarrow> int" where
  "durationRound d m =
     (let r = d mod m in
      if r + r < m then d - r else if in_i64 (d + m - r) then d + m - r else 2 ^ 63 - 1)"

definition padLeft :: "nat \<Rightarrow> string \<Rightarrow> string" where
  "padLeft p s = replicate (p - length s) CHR ''0'' @ s"

definition stripZeros :: "string \<Rightarrow> string" where
  "stripZeros s = rev (dropWhile (\<lambda>c. c = CHR ''0'') (rev s))"

text \<open>\<open>fmtFrac\<close>: the fraction of \<open>u\<close> in units of \<open>10 ^ p\<close>, without trailing zeros, and the point before it.\<close>

definition fmtFrac :: "nat \<Rightarrow> nat \<Rightarrow> string" where
  "fmtFrac u p =
     (let f = stripZeros (padLeft p (dec (u mod 10 ^ p))) in if u mod 10 ^ p = 0 then [] else ''.'' @ f)"

text \<open>\<open>Duration.String\<close>, for durations that are not negative.\<close>

definition durationString :: "nat \<Rightarrow> string" where
  "durationString u =
     (if u = 0 then ''0s''
      else if u < 1000 then dec u @ ''ns''
      else if u < 1000000 then dec (u div 1000) @ fmtFrac u 3 @ [CHR 0xC2, CHR 0xB5, CHR ''s'']
      else if u < 1000000000 then dec (u div 1000000) @ fmtFrac u 6 @ ''ms''
      else
        let s = u div 1000000000; m = s div 60; h = m div 60 in
        (if h > 0 then dec h @ ''h'' else []) @ (if m > 0 then dec (m mod 60) @ ''m'' else [])
        @ dec (s mod 60) @ fmtFrac u 9 @ ''s'')"

section \<open>Fixed decimals\<close>

text \<open>\<open>%.<p>f\<close>: the exact value rounded to \<open>p\<close> decimals, halves to even.\<close>

definition fixedDec :: "nat \<Rightarrow> rat \<Rightarrow> string" where
  "fixedDec p x =
     (let n = nat (roundHalfEven (x * 10 ^ p))
      in dec (n div 10 ^ p) @ ''.'' @ padLeft p (dec (n mod 10 ^ p)))"

section \<open>JSON\<close>

definition pow10 :: "int \<Rightarrow> rat" where
  "pow10 e = (if 0 \<le> e then 10 ^ nat e else 1 / 10 ^ nat (- e))"

text \<open>The exponent of the leading decimal digit.\<close>

definition exponent10 :: "rat \<Rightarrow> int" where
  "exponent10 x =
     (let (a, b) = quotient_of x; k = int (length (dec (nat a))) - int (length (dec (nat b)))
      in if pow10 k \<le> x then k else k - 1)"

text \<open>
  The shortest decimal that reads back as \<open>x\<close>: the fewest digits for which the decimal just below or the one
  just above rounds to \<open>x\<close>, and the nearer of the two if both do. The result is the digits as a number and
  the exponent of its last digit; 17 digits are always enough.
\<close>

fun shortestFrom :: "nat \<Rightarrow> int \<Rightarrow> rat \<Rightarrow> int \<times> int" where
  "shortestFrom 0 p x = (roundHalfEven (x / pow10 p), p)"
| "shortestFrom (Suc left) p x =
     (let lo = \<lfloor>x / pow10 p\<rfloor>;
          down = (float64 (of_int lo * pow10 p) = x);
          above = (float64 (of_int (lo + 1) * pow10 p) = x)
      in if down \<and> above then (roundHalfEven (x / pow10 p), p)
         else if down then (lo, p)
         else if above then (lo + 1, p)
         else shortestFrom left (p - 1) x)"

definition shortest :: "rat \<Rightarrow> int \<times> int" where
  "shortest x = shortestFrom 16 (exponent10 x) x"

text \<open>
  A \<open>float64\<close> in JSON: positional, or with an exponent below \<open>10 ^ -6\<close> and from \<open>10 ^ 21\<close> on. \<open>ds\<close> are the
  significant digits, \<open>dp\<close> the position of the point in them.
\<close>

definition jsonFloat :: "rat \<Rightarrow> string" where
  "jsonFloat x =
     (if x \<le> 0 then ''0''
      else
        let (m, p) = shortest x; all = dec (nat m); ds = stripZeros all; dp = int (length all) + p in
        if x < 1 / 10 ^ 6 \<or> 10 ^ 21 \<le> x then
          take 1 ds @ (if length ds > 1 then ''.'' @ drop 1 ds else []) @ ''e''
          @ (if dp - 1 < 0 then ''-'' else ''+'') @ dec (nat \<bar>dp - 1\<bar>)
        else if dp \<le> 0 then ''0.'' @ replicate (nat (- dp)) CHR ''0'' @ ds
        else if length ds \<le> nat dp then ds @ replicate (nat dp - length ds) CHR ''0''
        else take (nat dp) ds @ ''.'' @ drop (nat dp) ds)"

text \<open>The length of the UTF-8 sequence at the head of a string that is not empty, 0 for none.\<close>

definition between :: "nat \<Rightarrow> nat \<Rightarrow> char \<Rightarrow> bool" where
  "between a b c \<longleftrightarrow> a \<le> of_char c \<and> of_char c \<le> b"

definition continuation :: "char \<Rightarrow> bool" where
  "continuation c \<longleftrightarrow> between 0x80 0xBF c"

fun runeLen :: "string \<Rightarrow> nat" where
  "runeLen [] = 0"
| "runeLen (c # s) =
     (if between 0 0x7F c then 1
      else if between 0xC2 0xDF c then (if s \<noteq> [] \<and> continuation (s ! 0) then 2 else 0)
      else if between 0xE0 0xEF c then
        (if length s \<ge> 2 \<and> between (if c = CHR 0xE0 then 0xA0 else 0x80) (if c = CHR 0xED then 0x9F else 0xBF) (s ! 0)
            \<and> continuation (s ! 1) then 3 else 0)
      else if between 0xF0 0xF4 c then
        (if length s \<ge> 3 \<and> between (if c = CHR 0xF0 then 0x90 else 0x80) (if c = CHR 0xF4 then 0x8F else 0xBF) (s ! 0)
            \<and> continuation (s ! 1) \<and> continuation (s ! 2) then 4 else 0)
      else 0)"

definition hexNibble :: "nat \<Rightarrow> char" where
  "hexNibble d = (if d < 10 then char_of (48 + d) else char_of (87 + d))"

definition jsonASCII :: "char \<Rightarrow> string" where
  "jsonASCII c =
     (if c = CHR 0x22 \<or> c = CHR 0x5C then [CHR 0x5C, c]
      else if c = CHR 0x08 then [CHR 0x5C, CHR ''b'']
      else if c = CHR 0x0C then [CHR 0x5C, CHR ''f'']
      else if c = CHR 0x0A then [CHR 0x5C, CHR ''n'']
      else if c = CHR 0x0D then [CHR 0x5C, CHR ''r'']
      else if c = CHR 0x09 then [CHR 0x5C, CHR ''t'']
      else if between 0 0x1F c
      then CHR 0x5C # ''u00'' @ [hexNibble (of_char c div 16), hexNibble (of_char c mod 16)]
      else [c])"

text \<open>The contents of a string; U+2028 and U+2029 are escaped, a byte that begins no rune is replaced.\<close>

fun jsonChars :: "nat \<Rightarrow> string \<Rightarrow> string" where
  "jsonChars 0 s = []"
| "jsonChars (Suc n) s =
     (if s = [] then []
      else
        let k = runeLen s; rune = take k s in
        if k = 0 then CHR 0x5C # ''ufffd'' @ jsonChars n (drop 1 s)
        else (if k = 1 then jsonASCII (hd s)
              else if rune = [CHR 0xE2, CHR 0x80, CHR 0xA8] then CHR 0x5C # ''u2028''
              else if rune = [CHR 0xE2, CHR 0x80, CHR 0xA9] then CHR 0x5C # ''u2029''
              else rune) @ jsonChars n (drop k s))"

definition jsonString :: "string \<Rightarrow> string" where
  "jsonString s = [CHR 0x22] @ jsonChars (length s) s @ [CHR 0x22]"

definition jsonStrings :: "string list \<Rightarrow> string" where
  "jsonStrings xs = ''['' @ joinWith '','' (map jsonString xs) @ '']''"

text \<open>An object as \<open>Encode\<close> writes it, with the line's end.\<close>

definition jsonObject :: "(string \<times> string) list \<Rightarrow> string" where
  "jsonObject members =
     ''{'' @ joinWith '','' (map (\<lambda>(k, v). jsonString k @ '':'' @ v) members) @ ''}'' @ [CHR 0x0A]"

section \<open>What the numbers stand for\<close>

lemma roundHalfEven_cases: "roundHalfEven y = \<lfloor>y\<rfloor> \<or> roundHalfEven y = \<lfloor>y\<rfloor> + 1"
  by (simp add: roundHalfEven_def Let_def)

lemma roundHalfEven_near: "\<bar>of_int (roundHalfEven y) - y\<bar> \<le> 1 / 2"
  using floor_correct [of y] by (auto simp: roundHalfEven_def Let_def)

text \<open>A decimal found before the last digit reads back as the number it was made from.\<close>

lemma shortestFrom_reads_back:
  "shortestFrom left p x = (m, e) \<Longrightarrow> p - int left < e \<Longrightarrow> float64 (of_int m * pow10 e) = x"
proof (induction left p x rule: shortestFrom.induct)
  case (1 p x)
  then show ?case by simp
next
  case (2 left p x)
  then show ?case
    using roundHalfEven_cases [of "x / pow10 p"] by (auto simp: Let_def split: if_splits)
qed

text \<open>A number printed with \<open>p\<close> decimals is off by at most half a unit of the last.\<close>

lemma fixedDec_near: "\<bar>of_int (roundHalfEven (x * 10 ^ p)) / 10 ^ p - x\<bar> \<le> 1 / (2 * 10 ^ p)"
proof -
  have "of_int (roundHalfEven (x * 10 ^ p)) / 10 ^ p - x = (of_int (roundHalfEven (x * 10 ^ p)) - x * 10 ^ p) / 10 ^ p"
    by (simp add: field_simps)
  then have "\<bar>of_int (roundHalfEven (x * 10 ^ p)) / 10 ^ p - x\<bar>
      = \<bar>of_int (roundHalfEven (x * 10 ^ p)) - x * 10 ^ p\<bar> / 10 ^ p"
    by simp
  also have "\<dots> \<le> (1 / 2) / 10 ^ p"
    by (intro divide_right_mono roundHalfEven_near) simp
  finally show ?thesis by simp
qed

end
