(* ===== verification/StressRun.thy ===== *)
theory StressRun
  imports Stress Report
begin

text \<open>
  A whole run of the stress command (\<open>runStress\<close>): its workers joined on the shared counters, the result it
  computes from them, and the report it prints as text or as JSON. What every worker meets (its
  connection, the iterations that begin before the deadline, its random numbers) is an argument.
\<close>

section \<open>The workers joined\<close>

text \<open>
  The counters only ever grow by atomic additions, so a worker is a function on them and the workers are
  joined one after the other.
\<close>

definition stressWorkers ::
    "(string \<Rightarrow> string) \<Rightarrow> stressConfig \<Rightarrow> int \<times> int
     \<Rightarrow> (nat \<Rightarrow> (goerr + rpcClient) \<times> (nat \<times> (nat \<Rightarrow> 64 word)) list) \<Rightarrow> (nat \<Rightarrow> (goerr + rpcClient) \<times> nat)
     \<Rightarrow> (stressStats \<Rightarrow> stressStats) list" where
  "stressWorkers q cfg counts producer consumer =
     map (\<lambda>i. stressProducer cfg (int i) (fst (producer i)) (snd (producer i))) [0..<nat (fst counts)]
     @ map (\<lambda>i. stressConsumer q cfg (fst (consumer i)) (snd (consumer i))) [0..<nat (snd counts)]"

definition joined :: "(stressStats \<Rightarrow> stressStats) list \<Rightarrow> stressStats" where
  "joined workers = fold (\<lambda>worker st. worker st) workers noStats"

section \<open>The result and its report\<close>

record stressResult =
  resDuration :: rat
  resThreads :: int
  resPublishers :: int
  resConsumers :: int
  resChannels :: "string list"
  resPushed :: nat
  resServed :: nat
  resTimeouts :: nat
  resFailures :: nat
  resPushRate :: rat
  resServeRate :: rat

definition stressResultOf :: "stressConfig \<Rightarrow> int \<times> int \<Rightarrow> int \<Rightarrow> stressStats \<Rightarrow> stressResult" where
  "stressResultOf cfg counts elapsed st =
     (let seconds = (if secondsOf elapsed = 0 then 1 else secondsOf elapsed) in
      \<lparr>resDuration = float64 (float64 (of_int elapsed) / float64 1000000000), resThreads = sThreads cfg,
       resPublishers = fst counts, resConsumers = snd counts, resChannels = sChannels cfg,
       resPushed = pushed st, resServed = served st, resTimeouts = popTimeouts st, resFailures = failures st,
       resPushRate = float64 (float64 (of_nat (pushed st)) / seconds),
       resServeRate = float64 (float64 (of_nat (served st)) / seconds)\<rparr>)"

definition stressText :: "int \<Rightarrow> stressResult \<Rightarrow> string" where
  "stressText elapsed r =
     concat (map line
       [''stress duration: '' @ durationString (nat (durationRound elapsed 1000000)),
        ''threads: '' @ dec_int (resThreads r) @ '' ('' @ dec_int (resPublishers r) @ '' producers, ''
          @ dec_int (resConsumers r) @ '' consumers)'',
        ''channels: '' @ joinWith '', '' (resChannels r),
        ''messages pushed: '' @ dec (resPushed r),
        ''messages served: '' @ dec (resServed r),
        ''pop timeouts: '' @ dec (resTimeouts r),
        ''client failures: '' @ dec (resFailures r),
        ''push rate: '' @ fixedDec 2 (resPushRate r) @ '' msg/s'',
        ''serve rate: '' @ fixedDec 2 (resServeRate r) @ '' msg/s''])"

definition stressJSON :: "stressResult \<Rightarrow> string" where
  "stressJSON r =
     jsonObject
       [(''duration_seconds'', jsonFloat (resDuration r)), (''threads'', dec_int (resThreads r)),
        (''publishers'', dec_int (resPublishers r)), (''consumers'', dec_int (resConsumers r)),
        (''channels'', jsonStrings (resChannels r)), (''messages_pushed'', dec (resPushed r)),
        (''messages_served'', dec (resServed r)), (''pop_timeouts'', dec (resTimeouts r)),
        (''client_failures'', dec (resFailures r)), (''push_rate'', jsonFloat (resPushRate r)),
        (''serve_rate'', jsonFloat (resServeRate r))]"

text \<open>\<open>outErr\<close> is the error of writing the JSON report; that of the text report is ignored.\<close>

definition runStress ::
    "(string \<Rightarrow> string) \<Rightarrow> env \<Rightarrow> (string \<Rightarrow> request \<Rightarrow> goerr + response)
     \<Rightarrow> (nat \<Rightarrow> (goerr + rpcClient) \<times> (nat \<times> (nat \<Rightarrow> 64 word)) list) \<Rightarrow> (nat \<Rightarrow> (goerr + rpcClient) \<times> nat)
     \<Rightarrow> int \<Rightarrow> goerr option \<Rightarrow> string list \<Rightarrow> result" where
  "runStress q env trip producer consumer elapsed outErr args =
     (case runStressStart q env trip args of
        Inl res \<Rightarrow> res
      | Inr cfg \<Rightarrow>
          let counts = stressWorkerCounts cfg;
              r = stressResultOf cfg counts elapsed (joined (stressWorkers q cfg counts producer consumer))
          in if sFormat cfg = ''json'' then
               (case outErr of
                  Some err \<Rightarrow> runtimeError q (Wrap ''encode stress output'' err)
                | None \<Rightarrow> success (to_bytes (stressJSON r)))
             else success (to_bytes (stressText elapsed r)))"

section \<open>Counting is adding\<close>

definition addStats :: "stressStats \<Rightarrow> stressStats \<Rightarrow> stressStats" where
  "addStats a b =
     \<lparr>pushed = pushed a + pushed b, served = served a + served b,
      popTimeouts = popTimeouts a + popTimeouts b, failures = failures a + failures b\<rparr>"

lemma addStats_simps [simp]:
  "pushed (addStats a b) = pushed a + pushed b" "served (addStats a b) = served a + served b"
  "popTimeouts (addStats a b) = popTimeouts a + popTimeouts b" "failures (addStats a b) = failures a + failures b"
  by (simp_all add: addStats_def)

lemma noStats_simps [simp]: "pushed noStats = 0" "served noStats = 0" "popTimeouts noStats = 0" "failures noStats = 0"
  by (simp_all add: noStats_def)

definition counting :: "(stressStats \<Rightarrow> stressStats) \<Rightarrow> bool" where
  "counting w \<longleftrightarrow> (\<forall>st. w st = addStats st (w noStats))"

lemma stats_eqI:
  "pushed a = pushed b \<Longrightarrow> served a = served b \<Longrightarrow> popTimeouts a = popTimeouts b \<Longrightarrow> failures a = failures b
     \<Longrightarrow> a = (b :: stressStats)"
  by simp

lemma counting_step: "counting w \<Longrightarrow> counting (\<lambda>st. w (addStats st k))"
  unfolding counting_def by (metis (no_types, lifting) add.assoc add_0 addStats_simps noStats_simps stats_eqI)

lemma counting_const: "counting (\<lambda>st. addStats st k)"
  unfolding counting_def by (auto intro!: stats_eqI)

lemma counts_as_add:
  "st\<lparr>pushed := pushed st + 1\<rparr> = addStats st (noStats\<lparr>pushed := 1\<rparr>)"
  "st\<lparr>served := served st + 1\<rparr> = addStats st (noStats\<lparr>served := 1\<rparr>)"
  "st\<lparr>popTimeouts := popTimeouts st + 1\<rparr> = addStats st (noStats\<lparr>popTimeouts := 1\<rparr>)"
  "st\<lparr>failures := failures st + 1\<rparr> = addStats st (noStats\<lparr>failures := 1\<rparr>)"
  "st = addStats st noStats"
  by (auto intro!: stats_eqI)

lemma counting_add:
  "counting (\<lambda>st. st)" "counting (\<lambda>st. st\<lparr>failures := failures st + 1\<rparr>)"
  "counting w \<Longrightarrow> counting (\<lambda>st. w (st\<lparr>pushed := pushed st + 1\<rparr>))"
  "counting w \<Longrightarrow> counting (\<lambda>st. w (st\<lparr>served := served st + 1\<rparr>))"
  "counting w \<Longrightarrow> counting (\<lambda>st. w (st\<lparr>popTimeouts := popTimeouts st + 1\<rparr>))"
  "counting w \<Longrightarrow> counting (\<lambda>st. w (st\<lparr>failures := failures st + 1\<rparr>))"
  by (simp_all only: counts_as_add(1-4) counting_step counting_const)
     (simp add: counting_def addStats_def noStats_def)

lemma producerLoop_counting: "counting (producerLoop channels workerID len client seq picks)"
proof (induction picks arbitrary: client seq)
  case Nil
  then show ?case by (simp add: counting_add(1))
next
  case (Cons pick picks)
  obtain i rng where p: "pick = (i, rng)" by (cases pick)
  obtain e c where c: "clientPush client (channels ! i) (makeStressPayload workerID seq len rng) = (e, c)" by fastforce
  have "producerLoop channels workerID len client seq (pick # picks) =
      (\<lambda>st. if e = None then producerLoop channels workerID len c (i64 (seq + 1)) picks (st\<lparr>pushed := pushed st + 1\<rparr>)
            else st\<lparr>failures := failures st + 1\<rparr>)"
    by (rule ext) (simp add: p c split: option.split)
  then show ?case using counting_add(2) counting_add(3) [OF Cons.IH] by (cases e) simp_all
qed

lemma consumerLoop_counting: "counting (consumerLoop q client channels timeout n)"
proof (induction n arbitrary: client)
  case 0
  then show ?case by (simp add: counting_add(1))
next
  case (Suc n)
  obtain a c where a: "clientPop client channels (milliseconds timeout) = (a, c)" by fastforce
  note step = counting_add(2) counting_add(4-6) [OF Suc.IH [of c]]
  show ?case
  proof (cases a)
    case (Inl err)
    then show ?thesis using step(1) by (simp add: a fun_eq_iff counting_def)
  next
    case (Inr resp)
    have "consumerLoop q client channels timeout (Suc n) =
        (\<lambda>st. consumerLoop q c channels timeout n
           (if respOK resp then st\<lparr>served := served st + 1\<rparr>
            else if respError resp = error_text q ErrTimeout then st\<lparr>popTimeouts := popTimeouts st + 1\<rparr>
            else st\<lparr>failures := failures st + 1\<rparr>))"
      by (rule ext) (simp add: a Inr)
    then show ?thesis using step
      by (cases "respOK resp"; cases "respError resp = error_text q ErrTimeout") simp_all
  qed
qed

lemma stressProducer_counting: "counting (stressProducer cfg workerID dialled picks)"
proof (cases dialled)
  case (Inl err)
  then have "stressProducer cfg workerID dialled picks = (\<lambda>st. st\<lparr>failures := failures st + 1\<rparr>)"
    by (simp add: stressProducer_def fun_eq_iff)
  then show ?thesis using counting_add(2) by simp
next
  case (Inr client)
  then have "stressProducer cfg workerID dialled picks
      = producerLoop (sChannels cfg) workerID (nat (sPayloadLen cfg)) client 0 picks"
    by (simp add: stressProducer_def fun_eq_iff)
  then show ?thesis by (simp add: producerLoop_counting)
qed

lemma stressConsumer_counting: "counting (stressConsumer q cfg dialled n)"
proof (cases dialled)
  case (Inl err)
  then have "stressConsumer q cfg dialled n = (\<lambda>st. st\<lparr>failures := failures st + 1\<rparr>)"
    by (simp add: stressConsumer_def fun_eq_iff)
  then show ?thesis using counting_add(2) by simp
next
  case (Inr client)
  then have "stressConsumer q cfg dialled n = consumerLoop q client (sChannels cfg) (sPopTimeout cfg) n"
    by (simp add: stressConsumer_def fun_eq_iff)
  then show ?thesis by (simp add: consumerLoop_counting)
qed

lemma worker_counting: "w \<in> set (stressWorkers q cfg counts producer consumer) \<Longrightarrow> counting w"
  by (auto simp: stressWorkers_def stressProducer_counting stressConsumer_counting)

text \<open>A counter of the joined workers is the sum of what each of them counts alone.\<close>

lemma joined_sum:
  assumes "\<forall>w \<in> set ws. counting w" and "\<And>a b. f (addStats a b) = f a + (f b :: nat)" and "f noStats = 0"
  shows "f (joined ws) = sum_list (map (\<lambda>w. f (w noStats)) ws)"
proof -
  have "f (fold (\<lambda>w st. w st) ws st) = f st + sum_list (map (\<lambda>w. f (w noStats)) ws)" for st
    using assms(1)
  proof (induction ws arbitrary: st)
    case Nil
    then show ?case by simp
  next
    case (Cons w ws)
    have "w st = addStats st (w noStats)" using Cons.prems unfolding counting_def by (metis list.set_intros(1))
    then have "f (w st) = f st + f (w noStats)" by (simp only: assms(2))
    with Cons.IH [of "w st"] Cons.prems show ?case by simp
  qed
  then show ?thesis by (simp add: joined_def assms(3))
qed

section \<open>The life of a consumer\<close>

text \<open>
  What a consumer's connection carries when it talks to the daemon: messages, and then, if anything, one
  error, after which the daemon ends the connection.
\<close>

definition carries :: "(string \<Rightarrow> string) \<Rightarrow> rpcClient \<Rightarrow> delivery list \<Rightarrow> goerr option \<Rightarrow> bool" where
  "carries q client msgs final \<longleftrightarrow>
     rpcReader client =
       \<lparr>rdata = concat (map (\<lambda>d. response_frame (popResponse q (Inr d))) msgs)
          @ (case final of None \<Rightarrow> [] | Some err \<Rightarrow> response_frame (popResponse q (Inl err))), rend = EOF\<rparr>
     \<and> healthy (rpcWriter client)
     \<and> (\<forall>d \<in> set msgs. valid_response (popResponse q (Inr d)))
     \<and> (\<forall>err. final = Some err \<longrightarrow> valid_response (popResponse q (Inl err)))"

definition popsOK :: "string list \<Rightarrow> int \<Rightarrow> bool" where
  "popsOK channels timeout \<longleftrightarrow>
     valid_request \<lparr>reqOp = ''pop'', reqChannels = channels, reqPayload = [], reqTimeoutMS = milliseconds timeout\<rparr>"

lemma clientPop_reads:
  assumes v: "popsOK channels timeout" and w: "healthy (rpcWriter client)" and r: "valid_response resp"
    and d: "rpcReader client = \<lparr>rdata = response_frame resp @ rest, rend = EOF\<rparr>"
  obtains w' where "clientPop client channels (milliseconds timeout)
      = (Inr resp, client\<lparr>rpcReader := \<lparr>rdata = rest, rend = EOF\<rparr>, rpcWriter := w'\<rparr>)" and "healthy w'"
proof -
  from writeRequest_delivers [OF v [unfolded popsOK_def]] w obtain w' where
    w': "writeRequest \<lparr>reqOp = ''pop'', reqChannels = channels, reqPayload = [], reqTimeoutMS = milliseconds timeout\<rparr>
      (rpcWriter client) = (None, w')" "healthy w'"
    unfolding delivers_def by blast
  have "rdata (rpcReader client) = response_frame resp @ rest" using d by simp
  from response.decode [OF r this] w' d show thesis by (intro that [of w']) (simp_all add: clientPop_def)
qed

lemma clientPop_message:
  assumes c: "carries q client (d # msgs) final" and v: "popsOK channels timeout"
  obtains c' where "clientPop client channels (milliseconds timeout) = (Inr (popResponse q (Inr d)), c')"
    and "carries q c' msgs final"
proof -
  let ?rest = "concat (map (\<lambda>d. response_frame (popResponse q (Inr d))) msgs)
      @ (case final of None \<Rightarrow> [] | Some err \<Rightarrow> response_frame (popResponse q (Inl err)))"
  have "healthy (rpcWriter client)" "valid_response (popResponse q (Inr d))"
    "rpcReader client = \<lparr>rdata = response_frame (popResponse q (Inr d)) @ ?rest, rend = EOF\<rparr>"
    using c by (simp_all add: carries_def)
  from clientPop_reads [OF v this] obtain w' where
    pop: "clientPop client channels (milliseconds timeout)
      = (Inr (popResponse q (Inr d)), client\<lparr>rpcReader := \<lparr>rdata = ?rest, rend = EOF\<rparr>, rpcWriter := w'\<rparr>)" "healthy w'" .
  show thesis by (rule that [OF pop(1)]) (use c pop(2) in \<open>simp add: carries_def\<close>)
qed

lemma clientPop_final:
  assumes c: "carries q client [] (Some err)" and v: "popsOK channels timeout"
  obtains c' where "clientPop client channels (milliseconds timeout) = (Inr (popResponse q (Inl err)), c')"
    and "carries q c' [] None"
proof -
  have "healthy (rpcWriter client)" "valid_response (popResponse q (Inl err))"
    "rpcReader client = \<lparr>rdata = response_frame (popResponse q (Inl err)) @ [], rend = EOF\<rparr>"
    using c by (simp_all add: carries_def)
  from clientPop_reads [OF v this] obtain w' where
    pop: "clientPop client channels (milliseconds timeout)
      = (Inr (popResponse q (Inl err)), client\<lparr>rpcReader := \<lparr>rdata = [], rend = EOF\<rparr>, rpcWriter := w'\<rparr>)" "healthy w'" .
  show thesis by (rule that [OF pop(1)]) (use pop(2) in \<open>simp add: carries_def\<close>)
qed

lemma clientPop_ended:
  assumes c: "carries q client [] None"
  obtains err c' where "clientPop client channels timeoutMS = (Inl err, c')"
proof -
  obtain e where "readResponse (rpcReader client) = (Inl e, rpcReader client)"
    using c readResponse_empty [of "rpcReader client"] by (auto simp: carries_def)
  then have "\<exists>err. fst (clientPop client channels timeoutMS) = Inl err"
    by (auto simp: clientPop_def split: prod.split option.split)
  then show thesis by (metis that prod.collapse)
qed

lemma popResponse_fields [simp]:
  "respOK (popResponse q (Inr d))" "\<not> respOK (popResponse q (Inl err))"
  "respError (popResponse q (Inl err)) = error_text q err"
  by (simp_all add: popResponse_def errorResponse_def emptyResponse_def)

text \<open>What a consumer counts, by the number of its iterations and of what its connection carries.\<close>

definition timed_out :: "(string \<Rightarrow> string) \<Rightarrow> goerr option \<Rightarrow> bool" where
  "timed_out q final \<longleftrightarrow> (\<exists>err. final = Some err \<and> error_text q err = error_text q ErrTimeout)"

definition consumerLife :: "(string \<Rightarrow> string) \<Rightarrow> nat \<Rightarrow> nat \<Rightarrow> goerr option \<Rightarrow> stressStats" where
  "consumerLife q n msgs final =
     \<lparr>pushed = 0, served = min n msgs,
      popTimeouts = (if msgs < n \<and> timed_out q final then 1 else 0),
      failures = (if msgs < n \<and> \<not> timed_out q final then 1 else 0)
        + (if msgs + 1 < n \<and> final \<noteq> None then 1 else 0)\<rparr>"

lemma consumer_life:
  "carries q client msgs final \<Longrightarrow> popsOK channels timeout \<Longrightarrow>
     consumerLoop q client channels timeout n st = addStats st (consumerLife q n (length msgs) final)"
proof (induction msgs arbitrary: client n st)
  case Nil
  consider "n = 0" | (ended) m where "n = Suc m" "final = None"
    | (err) m err where "n = Suc m" "final = Some err" by (cases n; cases final) auto
  then show ?case
  proof cases
    case ended
    with Nil(1) clientPop_ended obtain e c where "clientPop client channels (milliseconds timeout) = (Inl e, c)" by metis
    with ended show ?thesis by (auto simp: consumerLife_def timed_out_def intro!: stats_eqI)
  next
    case err
    from clientPop_final [OF Nil(1) [unfolded err(2)] Nil(2)] obtain c where
      c: "clientPop client channels (milliseconds timeout) = (Inr (popResponse q (Inl err)), c)" "carries q c [] None" .
    from clientPop_ended [OF c(2)] obtain e c2 where
      c2: "clientPop c channels (milliseconds timeout) = (Inl e, c2)" by metis
    show ?thesis
      using err c(1) c2 by (cases m) (auto simp: consumerLife_def timed_out_def intro!: stats_eqI)
  qed (auto simp: consumerLife_def timed_out_def intro!: stats_eqI)
next
  case (Cons d msgs)
  show ?case
  proof (cases n)
    case 0
    then show ?thesis by (auto simp: consumerLife_def timed_out_def intro!: stats_eqI)
  next
    case (Suc m)
    from clientPop_message [OF Cons.prems] obtain c where
      c: "clientPop client channels (milliseconds timeout) = (Inr (popResponse q (Inr d)), c)" "carries q c msgs final" .
    from Suc c(1) have "consumerLoop q client channels timeout n st
        = consumerLoop q c channels timeout m (st\<lparr>served := served st + 1\<rparr>)" by simp
    also have "\<dots> = addStats (st\<lparr>served := served st + 1\<rparr>) (consumerLife q m (length msgs) final)"
      by (rule Cons.IH [OF c(2) Cons.prems(2)])
    also have "\<dots> = addStats st (consumerLife q n (length (d # msgs)) final)"
      using Suc by (auto simp: consumerLife_def timed_out_def intro!: stats_eqI)
    finally show ?thesis .
  qed
qed

section \<open>What a run reports\<close>

text \<open>The workers may add to the counters in any order.\<close>

lemma joined_any_order:
  assumes "mset ws = mset ws'" and c: "\<forall>w \<in> set ws. counting w"
  shows "joined ws = joined ws'"
proof -
  have c': "\<forall>w \<in> set ws'. counting w" using assms mset_eq_setD by blast
  have sum: "f (joined ws) = f (joined ws')"
    if "\<And>a b. f (addStats a b) = f a + (f b :: nat)" "f noStats = 0" for f
  proof -
    have "mset (map (\<lambda>w. f (w noStats)) ws) = mset (map (\<lambda>w. f (w noStats)) ws')" using assms(1) by simp
    then have "sum_list (map (\<lambda>w. f (w noStats)) ws) = sum_list (map (\<lambda>w. f (w noStats)) ws')"
      by (simp only: sum_mset_sum_list [symmetric])
    then show ?thesis by (simp only: joined_sum [OF c that] joined_sum [OF c' that])
  qed
  show ?thesis by (rule stats_eqI) (rule sum; simp)+
qed

lemma producerLoop_pushes_only:
  "served (producerLoop channels workerID len client seq picks st) = served st"
  "popTimeouts (producerLoop channels workerID len client seq picks st) = popTimeouts st"
  by (induction channels workerID len client seq picks st rule: producerLoop.induct)
     (auto split: prod.splits option.splits)

lemma stressProducer_pushes_only [simp]:
  "served (stressProducer cfg workerID dialled picks st) = served st"
  "popTimeouts (stressProducer cfg workerID dialled picks st) = popTimeouts st"
  by (auto simp: stressProducer_def producerLoop_pushes_only split: sum.split)

lemma sum_upt: "sum_list (map f [0..<n]) = (\<Sum>i<n. f i)"
  by (simp add: interv_sum_list_conv_sum_set_nat atLeast0LessThan)

lemma stress_consumers_count:
  assumes run: "\<forall>i < nat nc. \<exists>client. consumer i = (Inr client, n i) \<and> carries q client (msgs i) (final i)"
    and v: "popsOK (sChannels cfg) (sPopTimeout cfg)"
  shows "served (joined (stressWorkers q cfg (np, nc) producer consumer)) = (\<Sum>i < nat nc. min (n i) (length (msgs i)))"
    and "popTimeouts (joined (stressWorkers q cfg (np, nc) producer consumer))
      = card {i. i < nat nc \<and> length (msgs i) < n i \<and> timed_out q (final i)}"
proof -
  let ?ws = "stressWorkers q cfg (np, nc) producer consumer"
  have c: "\<forall>w \<in> set ?ws. counting w" using worker_counting by blast
  have life: "stressConsumer q cfg (fst (consumer i)) (snd (consumer i)) noStats
      = addStats noStats (consumerLife q (n i) (length (msgs i)) (final i))" if i: "i < nat nc" for i
  proof -
    from run i obtain client where client: "consumer i = (Inr client, n i)" "carries q client (msgs i) (final i)" by blast
    from consumer_life [OF client(2) v, of "n i" noStats] client(1) show ?thesis by (simp add: stressConsumer_def)
  qed
  have "served (joined ?ws) = (\<Sum>i < nat nc. served (stressConsumer q cfg (fst (consumer i)) (snd (consumer i)) noStats))"
    using joined_sum [OF c, of served] by (simp add: stressWorkers_def sum_upt comp_def)
  then show "served (joined ?ws) = (\<Sum>i < nat nc. min (n i) (length (msgs i)))"
    by (simp add: life consumerLife_def)
  have "popTimeouts (joined ?ws)
      = (\<Sum>i < nat nc. popTimeouts (stressConsumer q cfg (fst (consumer i)) (snd (consumer i)) noStats))"
    using joined_sum [OF c, of popTimeouts] by (simp add: stressWorkers_def sum_upt comp_def)
  also have "\<dots> = (\<Sum>i < nat nc. if length (msgs i) < n i \<and> timed_out q (final i) then 1 else 0)"
    by (intro sum.cong) (simp_all add: life consumerLife_def)
  also have "\<dots> = card {i. i < nat nc \<and> length (msgs i) < n i \<and> timed_out q (final i)}"
    by (simp add: sum.If_cases Int_def)
  finally show "popTimeouts (joined ?ws) = card {i. i < nat nc \<and> length (msgs i) < n i \<and> timed_out q (final i)}" .
qed



section \<open>Exit codes\<close>

text \<open>
  Fact. The stress command exits with 64 exactly when its options are refused, and with 0 exactly when it
  has printed a report.
\<close>

lemma stress_exit_code:
  fixes q env trip producer consumer elapsed outErr args
  defines "printed \<equiv> runStress q env trip producer consumer elapsed outErr args"
  shows "code printed = exitUsage \<longleftrightarrow> (\<exists>err. parseStressArgs q env args = Inl err)"
    and "code printed = exitOK \<longleftrightarrow> (\<exists>cfg. runStressStart q env trip args = Inr cfg
      \<and> (sFormat cfg = ''json'' \<longrightarrow> outErr = None))"
  unfolding printed_def
  by (auto simp: runStress_def runStressStart_def usageError_def runtimeError_def clientError_def success_def
      exitUsage_def exitOK_def exitRuntime_def exitTimeout_def Let_def split: sum.splits option.splits if_splits)

section \<open>A report\<close>

lemma stress_text_of_a_run:
  assumes "resThreads r = 7" "resPublishers r = 3" "resConsumers r = 4" "resChannels r = [''a'', ''b'']"
    "resPushed r = 20" "resServed r = 10" "resTimeouts r = 1" "resFailures r = 2" "resPushRate r = 8" "resServeRate r = 4"
  shows "stressText 2500400000 r
    = concat (map line [''stress duration: 2.5s'', ''threads: 7 (3 producers, 4 consumers)'', ''channels: a, b'',
        ''messages pushed: 20'', ''messages served: 10'', ''pop timeouts: 1'', ''client failures: 2'',
        ''push rate: 8.00 msg/s'', ''serve rate: 4.00 msg/s''])"
proof -
  have "durationString (nat (durationRound 2500400000 1000000)) = ''2.5s''"
    by (simp add: durationString_def durationRound_def fmtFrac_def stripZeros_def padLeft_def Let_def digit_char_def
        dec.simps char_of_def bit_Suc_0_iff)
  moreover have "fixedDec 2 8 = ''8.00''" "fixedDec 2 4 = ''4.00''" by code_simp+
  moreover have "dec_int 7 = ''7''" "dec_int 3 = ''3''" "dec_int 4 = ''4''" "dec 20 = ''20''" "dec 10 = ''10''"
    "dec 1 = ''1''" "dec 2 = ''2''" by code_simp+
  ultimately show ?thesis by (simp add: stressText_def assms)
qed

end
