(* ===== verification/ExampleClient.thy ===== *)
theory ExampleClient
  imports Client ProtocolProps Server
begin

text \<open>
  The stand-alone Go client (\<open>examples/go/standalone-client/main.go\<close>), which has its own copy of the
  protocol without the program's checks: its request writer and response reader, \<open>Push\<close>, \<open>Pop\<close>, \<open>Dial\<close>
  with its way of starting the daemon, and its \<open>main\<close>. The stress example has the same client.
\<close>

section \<open>Requests\<close>

text \<open>\<open>uint16(len(...))\<close> and \<open>uint32(len(...))\<close> keep the low bits; no length is checked.\<close>

fun exWriteChannels :: "string list \<Rightarrow> wr" where
  "exWriteChannels [] = (\<lambda>w. (None, w))"
| "exWriteChannels (channel # rest) =
     wr_seq (writeUint16 (word_of_nat (length channel)))
       (wr_seq (bwWriteString channel) (exWriteChannels rest))"

definition exWriteRequest :: "byte \<Rightarrow> string list \<Rightarrow> bytes \<Rightarrow> int \<Rightarrow> wr" where
  "exWriteRequest op channels payload timeoutMS =
     wr_seq (bwWriteByte op)
       (wr_seq (writeInt64 timeoutMS)
         (wr_seq (writeUint16 (word_of_nat (length channels)))
           (wr_seq (exWriteChannels channels)
             (wr_seq (writeUint32 (word_of_nat (length payload)))
               (wr_seq (bwWrite payload) bwFlush)))))"

section \<open>Responses\<close>

definition exReadString16 :: "string rd" where
  "exReadString16 =
     rd_bind readUint16 (\<lambda>n. rd_bind (readFull (unat n)) (\<lambda>buf. rd_return (of_bytes buf)))"

definition exReadBytes32 :: "bytes rd" where
  "exReadBytes32 = rd_bind readUint32 (\<lambda>n. if n = 0 then rd_return [] else readFull (unat n))"

definition exReadString32 :: "string rd" where
  "exReadString32 = rd_bind exReadBytes32 (\<lambda>buf. rd_return (of_bytes buf))"

definition exReadResponse :: "(bool \<times> string \<times> bytes \<times> string) rd" where
  "exReadResponse =
     rd_bind readByte (\<lambda>status.
     rd_bind exReadString16 (\<lambda>channel.
     rd_bind exReadBytes32 (\<lambda>payload.
     rd_bind exReadString32 (\<lambda>errText.
       rd_return (status = statusOK, channel, payload, errText)))))"

section \<open>Push and Pop\<close>

definition exPush :: "rpcClient \<Rightarrow> string \<Rightarrow> bytes \<Rightarrow> goerr option \<times> rpcClient" where
  "exPush c channel payload =
     (case exWriteRequest opPush [channel] payload 0 (rpcWriter c) of
        (Some err, w) \<Rightarrow> (Some err, c\<lparr>rpcWriter := w\<rparr>)
      | (None, w) \<Rightarrow>
          (case exReadResponse (rpcReader c) of
             (Inl err, r) \<Rightarrow> (Some err, c\<lparr>rpcReader := r, rpcWriter := w\<rparr>)
           | (Inr (ok, channel, payload, errText), r) \<Rightarrow>
               (if \<not> ok then Some (Text errText) else None, c\<lparr>rpcReader := r, rpcWriter := w\<rparr>)))"

definition exPop :: "rpcClient \<Rightarrow> string list \<Rightarrow> int \<Rightarrow> (goerr + bytes) \<times> rpcClient" where
  "exPop c channels timeout =
     (case exWriteRequest opPop channels [] (milliseconds timeout) (rpcWriter c) of
        (Some err, w) \<Rightarrow> (Inl err, c\<lparr>rpcWriter := w\<rparr>)
      | (None, w) \<Rightarrow>
          (case exReadResponse (rpcReader c) of
             (Inl err, r) \<Rightarrow> (Inl err, c\<lparr>rpcReader := r, rpcWriter := w\<rparr>)
           | (Inr (ok, channel, payload, errText), r) \<Rightarrow>
               (if \<not> ok then Inl (Text errText) else Inr payload, c\<lparr>rpcReader := r, rpcWriter := w\<rparr>)))"

section \<open>Connecting\<close>

definition exDefaultSocketPath :: "env \<Rightarrow> string" where
  "exDefaultSocketPath env =
     (if envSocket env \<noteq> [] then envSocket env
      else joinPath [''/run/user'', dec (envUid env), ''atomic-queue/atomic-queue.sock''])"

text \<open>\<open>filepath.Dir\<close>: what precedes the last slash, cleaned.\<close>

definition dirPath :: "string \<Rightarrow> string" where
  "dirPath path = cleanPath (rev (dropWhile (\<lambda>c. c \<noteq> CHR ''/'') (rev path)))"

text \<open>\<open>bin\<close> is the variable \<open>ATOMIC_QUEUE_BIN\<close>, \<open>arg0\<close> the name the program was started by.\<close>

definition binaryPath :: "string \<Rightarrow> string \<Rightarrow> string" where
  "binaryPath bin arg0 =
     (if bin \<noteq> [] then bin
      else cleanPath (joinPath [dirPath arg0, ''..'', ''..'', ''..'', ''atomic-queue'']))"

text \<open>
  \<open>ensureDaemon\<close> starts a daemon on every network error of the dial, whatever its cause; \<open>start\<close> is the
  error of starting the process, \<open>probes\<close> the dials before the deadline.
\<close>

definition exEnsureDaemon :: "goerr option \<Rightarrow> bool list \<Rightarrow> string \<Rightarrow> goerr \<Rightarrow> goerr option" where
  "exEnsureDaemon start probes socketPath cause =
     (case asOpError cause of
        None \<Rightarrow> Some cause
      | Some inner \<Rightarrow>
          (case start of
             Some err \<Rightarrow> Some err
           | None \<Rightarrow>
               if probeLoop probes then None
               else Some (Text (''daemon did not start at '' @ socketPath))))"

definition exDial ::
    "goerr + link \<Rightarrow> goerr option \<Rightarrow> bool list \<Rightarrow> goerr + link \<Rightarrow> string \<Rightarrow> goerr + rpcClient" where
  "exDial dial start probes redial socketPath =
     (case dial of
        Inr l \<Rightarrow> Inr (connectTo l)
      | Inl err \<Rightarrow>
          (case exEnsureDaemon start probes socketPath err of
             Some ensureErr \<Rightarrow> Inl ensureErr
           | None \<Rightarrow>
               (case redial of
                  Inl err2 \<Rightarrow> Inl err2
                | Inr l \<Rightarrow> Inr (connectTo l))))"

section \<open>main\<close>

definition exPayload :: bytes where
  \<open>exPayload = to_bytes ''{"job":"reindex","id":123}''\<close>

text \<open>\<open>dialled\<close> is the result of \<open>Dial\<close>; on an error the program prints it and exits with 1.\<close>

definition exMain :: "(string \<Rightarrow> string) \<Rightarrow> goerr + rpcClient \<Rightarrow> result" where
  "exMain q dialled =
     (case dialled of
        Inl err \<Rightarrow> \<lparr>code = 1, stdout = [], stderr = line (error_text q err)\<rparr>
      | Inr client \<Rightarrow>
          (case exPush client ''jobs'' exPayload of
             (Some err, _) \<Rightarrow> \<lparr>code = 1, stdout = [], stderr = line (error_text q err)\<rparr>
           | (None, client1) \<Rightarrow>
               (case exPop client1 [''jobs''] 5000000000 of
                  (Inl err, _) \<Rightarrow> \<lparr>code = 1, stdout = [], stderr = line (error_text q err)\<rparr>
                | (Inr message, _) \<Rightarrow>
                    \<lparr>code = 0, stdout = to_bytes ''received: '' @ message @ to_bytes [CHR 0x0A],
                     stderr = []\<rparr>)))"

section \<open>The example writes what the program writes\<close>

lemma exWriteChannels_eq: "\<forall>c \<in> set cs. length c \<le> 65535 \<Longrightarrow> exWriteChannels cs = writeChannels cs"
  by (induction cs) auto

definition op_byte :: "string \<Rightarrow> byte" where
  "op_byte op = (if op = ''push'' then opPush else opPop)"

text \<open>
  On every request the program itself would send, the example's writer does exactly what
  the program's writer does, on a writer in any state and whatever fails.
\<close>

lemma example_writes_the_same:
  assumes "valid_request req"
  shows "exWriteRequest (op_byte (reqOp req)) (reqChannels req) (reqPayload req) (reqTimeoutMS req) w
    = writeRequest req w"
  using assms
  by (auto simp: exWriteRequest_def writeRequest_def valid_request_def op_byte_def exWriteChannels_eq wr_seq_assoc)

section \<open>The example reads what the program reads\<close>

lemma rd_bind_Inr:
  "rd_bind m k r = (Inr y, r') \<longleftrightarrow> (\<exists>x r1. m r = (Inr x, r1) \<and> k x r1 = (Inr y, r'))"
  by (auto simp: rd_bind_def split: prod.splits sum.splits)

lemma exReadBytes32_eq:
  assumes "readBytes32 m r = (Inr b, r')"
  shows "exReadBytes32 r = (Inr b, r')"
proof -
  obtain n r1 where n: "readUint32 r = (Inr n, r1)"
    and rest: "(if int (unat n) > m then rd_fail (FrameTooLarge (unat n) m)
       else if n = 0 then rd_return []
       else (\<lambda>r. case readFull (unat n) r of
                   (Inl e, r') \<Rightarrow> (Inl (if go_is e EOF then ErrUnexpectedEOF else e), r')
                 | (Inr bs, r') \<Rightarrow> (Inr bs, r'))) r1 = (Inr b, r')"
    using assms unfolding readBytes32_def rd_bind_Inr by blast
  from rest have "(if n = 0 then rd_return [] else readFull (unat n)) r1 = (Inr b, r')"
    by (auto simp: rd_fail_def split: if_splits prod.splits sum.splits)
  with n show ?thesis unfolding exReadBytes32_def rd_bind_Inr by blast
qed

lemma exReadString32_eq: "readString32 m r = (Inr s, r') \<Longrightarrow> exReadString32 r = (Inr s, r')"
  by (auto simp: readString32_def exReadString32_def rd_bind_Inr dest: exReadBytes32_eq)

text \<open>
  Every response the program's reader accepts, the example's reader accepts too, with the
  same contents, and it leaves the same input behind.
\<close>

lemma example_reads_the_same:
  assumes "readResponse r = (Inr resp, r')"
  shows "exReadResponse r = (Inr (respOK resp, respChannel resp, respPayload resp, respError resp), r')"
  using assms exReadBytes32_eq exReadString32_eq
  by (fastforce simp: readResponse_def exReadResponse_def rd_bind_Inr readString16_def exReadString16_def
      rd_return_def rd_fail_def statusOK_def statusError_def split: if_splits)

text \<open>
  Property C36. The example speaks the program's protocol: on every request the program itself would
  send, its writer does exactly what the program's writer does, on a writer in any state and whatever
  fails; and every response the program's reader accepts, its reader accepts too, with the same
  contents, leaving the same input behind.
\<close>

theorem example_speaks_the_protocol:
  shows "(valid_request req \<longrightarrow>
      exWriteRequest (op_byte (reqOp req)) (reqChannels req) (reqPayload req) (reqTimeoutMS req) w = writeRequest req w)
    \<and> (readResponse r = (Inr resp, r') \<longrightarrow>
      exReadResponse r = (Inr (respOK resp, respChannel resp, respPayload resp, respError resp), r'))"
  using example_writes_the_same example_reads_the_same by blast

lemma example_speaks_the_protocol_witness:
  "exWriteRequest opPush [''a''] [1, 2] 0 (newWriter (Some EOF))
      = writeRequest \<lparr>reqOp = ''push'', reqChannels = [''a''], reqPayload = [1, 2], reqTimeoutMS = 0\<rparr> (newWriter (Some EOF))
    \<and> exReadResponse \<lparr>rdata = [1, 0, 1, 97, 0, 0, 0, 1, 7, 0, 0, 0, 0], rend = EOF\<rparr>
      = (Inr (True, ''a'', [7], []), \<lparr>rdata = [], rend = EOF\<rparr>)"
proof -
  let ?req = "\<lparr>reqOp = ''push'', reqChannels = [''a''], reqPayload = [1, 2], reqTimeoutMS = 0\<rparr>"
  let ?resp = "\<lparr>respOK = True, respChannel = ''a'', respPayload = [7], respError = []\<rparr>"
  have "readResponse \<lparr>rdata = [1, 0, 1, 97, 0, 0, 0, 1, 7, 0, 0, 0, 0], rend = EOF\<rparr>
      = (Inr ?resp, \<lparr>rdata = [], rend = EOF\<rparr>)" by code_simp
  with example_speaks_the_protocol [of ?req "newWriter (Some EOF)" "\<lparr>rdata = [1, 0, 1, 97, 0, 0, 0, 1, 7, 0, 0, 0, 0], rend = EOF\<rparr>"
      ?resp "\<lparr>rdata = [], rend = EOF\<rparr>"]
  show ?thesis
    by (simp add: op_byte_def valid_request_def in_i64_def protocolMaxChannels_def defaultMaxBytes_def)
qed

section \<open>Lengths the example does not check\<close>

lemma wr_seq_skip [simp]: "wr_seq m (\<lambda>w. (None, w)) = m"
  by (rule ext) (simp add: wr_seq_def split: prod.splits option.splits)

lemma delivers_new:
  assumes "delivers m bs"
  obtains w where "m (newWriter None) = (None, w)" and "sent w = bs" and "healthy w"
proof -
  have "healthy (newWriter None)" by (simp add: healthy_def newWriter_def)
  with assms obtain w where "m (newWriter None) = (None, w)" "sent w = written (newWriter None) @ bs" "healthy w"
    unfolding delivers_def by blast
  then show thesis by (intro that) (simp_all add: newWriter_def written_def)
qed

lemma emits_any_uint16: "emits (writeUint16 v) (put_be 2 (unat v))"
  unfolding writeUint16_def by (rule emits_bwWrite)

lemma emits_any_uint32: "emits (writeUint32 v) (put_be 4 (unat v))"
  unfolding writeUint32_def by (rule emits_bwWrite)



section \<open>What the example prints\<close>

lemma example_exchange:
  assumes v: "valid_response resp" and f: "rdata (rpcReader c) = response_frame resp @ rest"
  shows "exReadResponse (rpcReader c)
    = (Inr (respOK resp, respChannel resp, respPayload resp, respError resp), (rpcReader c)\<lparr>rdata := rest\<rparr>)"
  by (rule example_reads_the_same) (rule response.decode [OF v f])

lemma exWriteRequest_healthy:
  assumes "valid_request req" and "healthy w"
  obtains w' where "exWriteRequest (op_byte (reqOp req)) (reqChannels req) (reqPayload req) (reqTimeoutMS req) w = (None, w')"
    and "healthy w'"
  using example_writes_the_same [OF assms(1), of w] writeRequest_delivers [OF assms(1)] assms(2)
  by (auto simp: delivers_def)

lemma error_text_Text: "error_text q (Text t) = t"
  by simp

lemma exPush_exchange:
  assumes f: "rdata (rpcReader c) = response_frame (pushResponse q a) @ rest" and w: "healthy (rpcWriter c)"
    and v: "length ch \<le> 65535" "int (length p) \<le> defaultMaxBytes" "valid_response (pushResponse q a)"
  obtains w' where "exPush c ch p
      = (map_option (\<lambda>err. Text (error_text q err)) a, c\<lparr>rpcReader := (rpcReader c)\<lparr>rdata := rest\<rparr>, rpcWriter := w'\<rparr>)"
    and "healthy w'"
proof -
  let ?req = "\<lparr>reqOp = ''push'', reqChannels = [ch], reqPayload = p, reqTimeoutMS = 0\<rparr>"
  have "valid_request ?req"
    using v by (simp add: valid_request_def in_i64_def protocolMaxChannels_def)
  from exWriteRequest_healthy [OF this w] obtain w' where
    w': "exWriteRequest opPush [ch] p 0 (rpcWriter c) = (None, w')" "healthy w'"
    by (auto simp: op_byte_def)
  show thesis
    by (rule that [OF _ w'(2)])
       (simp add: exPush_def w' example_exchange [OF v(3) f] pushResponse_def errorResponse_def emptyResponse_def
         split: option.split)
qed

lemma exPop_exchange:
  assumes f: "rdata (rpcReader c) = response_frame (popResponse q a)" and w: "healthy (rpcWriter c)"
    and v: "\<forall>ch \<in> set chs. length ch \<le> 65535" "length chs \<le> protocolMaxChannels" "in_i64 (milliseconds t)"
      "valid_response (popResponse q a)"
  shows "fst (exPop c chs t) = map_sum (\<lambda>err. Text (error_text q err)) dPayload a"
proof -
  let ?req = "\<lparr>reqOp = ''pop'', reqChannels = chs, reqPayload = [], reqTimeoutMS = milliseconds t\<rparr>"
  have "valid_request ?req" using v by (simp add: valid_request_def defaultMaxBytes_def)
  from exWriteRequest_healthy [OF this w] obtain w' where
    w': "exWriteRequest opPop chs [] (milliseconds t) (rpcWriter c) = (None, w')"
    by (auto simp: op_byte_def)
  have "rdata (rpcReader c) = response_frame (popResponse q a) @ []" using f by simp
  from example_exchange [OF v(4) this] show ?thesis
    by (simp add: exPop_def w' popResponse_def errorResponse_def emptyResponse_def split: sum.split)
qed

text \<open>
  Fact. The example's main over a daemon's answers, on every branch: when the push is accepted
  and the pop is answered with a message, it prints that message and exits with 0; when either is
  answered with an error, it prints the daemon's error text and exits with 1.
\<close>

lemma example_main_spec:
  assumes "rdata (rpcReader client) = response_frame (pushResponse q pushed)
      @ (if pushed = None then response_frame (popResponse q popped) else [])"
    and "healthy (rpcWriter client)" and "valid_response (pushResponse q pushed)" and "valid_response (popResponse q popped)"
  shows "exMain q (Inr client) =
    (case (pushed, popped) of
       (Some err, _) \<Rightarrow> \<lparr>code = 1, stdout = [], stderr = line (error_text q err)\<rparr>
     | (None, Inl err) \<Rightarrow> \<lparr>code = 1, stdout = [], stderr = line (error_text q err)\<rparr>
     | (None, Inr d) \<Rightarrow>
         \<lparr>code = 0, stdout = to_bytes ''received: '' @ dPayload d @ to_bytes [CHR 0x0A], stderr = []\<rparr>)"
proof -
  have "length ''jobs'' \<le> 65535" "int (length exPayload) \<le> defaultMaxBytes"
    by (simp_all add: exPayload_def defaultMaxBytes_def)
  from exPush_exchange [OF assms(1,2) this assms(3)] obtain w' where
    push: "exPush client ''jobs'' exPayload = (map_option (\<lambda>err. Text (error_text q err)) pushed,
      client\<lparr>rpcReader := (rpcReader client)\<lparr>rdata := (if pushed = None then response_frame (popResponse q popped) else [])\<rparr>,
             rpcWriter := w'\<rparr>)" and w': "healthy w'" .
  show ?thesis
  proof (cases pushed)
    case (Some err)
    with push show ?thesis by (simp add: exMain_def)
  next
    case None
    let ?c = "client\<lparr>rpcReader := (rpcReader client)\<lparr>rdata := response_frame (popResponse q popped)\<rparr>, rpcWriter := w'\<rparr>"
    have "fst (exPop ?c [''jobs''] 5000000000) = map_sum (\<lambda>err. Text (error_text q err)) dPayload popped"
      by (rule exPop_exchange)
         (use w' assms(4) in \<open>simp_all add: protocolMaxChannels_def milliseconds_def in_i64_def\<close>)
    then obtain c2 where "exPop ?c [''jobs''] 5000000000 = (map_sum (\<lambda>err. Text (error_text q err)) dPayload popped, c2)"
      by (metis prod.collapse)
    with push None show ?thesis by (cases popped) (simp_all add: exMain_def)
  qed
qed

lemma example_main_spec_witness:
  "exMain id (Inr (connectTo (\<lparr>rdata = response_frame (pushResponse id None)
       @ response_frame (popResponse id (Inr \<lparr>dChannel = ''jobs'', dPayload = exPayload\<rparr>)), rend = EOF\<rparr>, None)))
   = \<lparr>code = 0, stdout = to_bytes ''received: '' @ exPayload @ to_bytes [CHR 0x0A], stderr = []\<rparr>"
  by (subst example_main_spec [where pushed = None and popped = "Inr \<lparr>dChannel = ''jobs'', dPayload = exPayload\<rparr>"])
     (simp_all add: connectTo_def healthy_def newWriter_def pushResponse_def popResponse_def valid_response_def
       emptyResponse_def exPayload_def defaultMaxBytes_def protocolMaxErrorSize_def)

text \<open>The socket path of the example is the program's.\<close>

lemma example_socket_path: "exDefaultSocketPath env = defaultSocketPath env"
  using dec_nonempty [of "envUid env"] by (simp add: exDefaultSocketPath_def defaultSocketPath_def joinPath_def)

end
