(* ===== verification/ExampleStressClient.thy ===== *)
theory ExampleStressClient
  imports ExampleClient
begin

text \<open>
  The client of the stress example (\<open>examples/go/stress/main.go\<close>), its own copy of the stand-alone one
  with the operation bytes and the status written as numbers, and the proof that the copies do the same.
\<close>

section \<open>Requests and responses\<close>

fun sxWriteChannels :: "string list \<Rightarrow> wr" where
  "sxWriteChannels [] = (\<lambda>w. (None, w))"
| "sxWriteChannels (channel # rest) =
     wr_seq (writeUint16 (word_of_nat (length channel)))
       (wr_seq (bwWriteString channel) (sxWriteChannels rest))"

definition sxWriteRequest :: "byte \<Rightarrow> string list \<Rightarrow> bytes \<Rightarrow> int \<Rightarrow> wr" where
  "sxWriteRequest op channels payload timeoutMS =
     wr_seq (bwWriteByte op)
       (wr_seq (writeInt64 timeoutMS)
         (wr_seq (writeUint16 (word_of_nat (length channels)))
           (wr_seq (sxWriteChannels channels)
             (wr_seq (writeUint32 (word_of_nat (length payload)))
               (wr_seq (bwWrite payload) bwFlush)))))"

definition sxReadString16 :: "string rd" where
  "sxReadString16 =
     rd_bind readUint16 (\<lambda>n. rd_bind (readFull (unat n)) (\<lambda>buf. rd_return (of_bytes buf)))"

definition sxReadBytes32 :: "bytes rd" where
  "sxReadBytes32 = rd_bind readUint32 (\<lambda>n. if n = 0 then rd_return [] else readFull (unat n))"

definition sxReadString32 :: "string rd" where
  "sxReadString32 = rd_bind sxReadBytes32 (\<lambda>buf. rd_return (of_bytes buf))"

definition sxReadResponse :: "(bool \<times> string \<times> bytes \<times> string) rd" where
  "sxReadResponse =
     rd_bind readByte (\<lambda>status.
     rd_bind sxReadString16 (\<lambda>channel.
     rd_bind sxReadBytes32 (\<lambda>payload.
     rd_bind sxReadString32 (\<lambda>errText.
       rd_return (status = 1, channel, payload, errText)))))"

section \<open>Push and Pop\<close>

definition sxPush :: "rpcClient \<Rightarrow> string \<Rightarrow> bytes \<Rightarrow> goerr option \<times> rpcClient" where
  "sxPush c channel payload =
     (case sxWriteRequest 1 [channel] payload 0 (rpcWriter c) of
        (Some err, w) \<Rightarrow> (Some err, c\<lparr>rpcWriter := w\<rparr>)
      | (None, w) \<Rightarrow>
          (case sxReadResponse (rpcReader c) of
             (Inl err, r) \<Rightarrow> (Some err, c\<lparr>rpcReader := r, rpcWriter := w\<rparr>)
           | (Inr (ok, channel, payload, errText), r) \<Rightarrow>
               (if \<not> ok then Some (Text errText) else None, c\<lparr>rpcReader := r, rpcWriter := w\<rparr>)))"

definition sxPop :: "rpcClient \<Rightarrow> string list \<Rightarrow> int \<Rightarrow> (goerr + bytes) \<times> rpcClient" where
  "sxPop c channels timeout =
     (case sxWriteRequest 2 channels [] (milliseconds timeout) (rpcWriter c) of
        (Some err, w) \<Rightarrow> (Inl err, c\<lparr>rpcWriter := w\<rparr>)
      | (None, w) \<Rightarrow>
          (case sxReadResponse (rpcReader c) of
             (Inl err, r) \<Rightarrow> (Inl err, c\<lparr>rpcReader := r, rpcWriter := w\<rparr>)
           | (Inr (ok, channel, payload, errText), r) \<Rightarrow>
               (if \<not> ok then Inl (Text errText) else Inr payload, c\<lparr>rpcReader := r, rpcWriter := w\<rparr>)))"

section \<open>Connecting\<close>

definition sxDefaultSocketPath :: "env \<Rightarrow> string" where
  "sxDefaultSocketPath env =
     (if envSocket env \<noteq> [] then envSocket env
      else joinPath [''/run/user'', dec (envUid env), ''atomic-queue'', ''atomic-queue.sock''])"

definition sxBinaryPath :: "string \<Rightarrow> string \<Rightarrow> string" where
  "sxBinaryPath bin arg0 =
     (if bin \<noteq> [] then bin
      else cleanPath (joinPath [dirPath arg0, ''..'', ''..'', ''..'', ''..'', ''atomic-queue'']))"

definition sxEnsureDaemon :: "goerr option \<Rightarrow> bool list \<Rightarrow> string \<Rightarrow> goerr \<Rightarrow> goerr option" where
  "sxEnsureDaemon start probes socketPath cause =
     (case asOpError cause of
        None \<Rightarrow> Some cause
      | Some netErr \<Rightarrow>
          (case start of
             Some err \<Rightarrow> Some err
           | None \<Rightarrow>
               if probeLoop probes then None
               else Some (Text (''daemon did not start at '' @ socketPath))))"

definition sxDial ::
    "goerr + link \<Rightarrow> goerr option \<Rightarrow> bool list \<Rightarrow> goerr + link \<Rightarrow> string \<Rightarrow> goerr + rpcClient" where
  "sxDial dial start probes redial socketPath =
     (case dial of
        Inr l \<Rightarrow> Inr (connectTo l)
      | Inl err \<Rightarrow>
          (case sxEnsureDaemon start probes socketPath err of
             Some ensureErr \<Rightarrow> Inl ensureErr
           | None \<Rightarrow>
               (case redial of
                  Inl err2 \<Rightarrow> Inl err2
                | Inr l \<Rightarrow> Inr (connectTo l))))"

section \<open>The two copies\<close>

lemma sxWriteChannels_copy: "sxWriteChannels cs = exWriteChannels cs"
  by (induction cs) simp_all

lemma sxWriteRequest_copy: "sxWriteRequest = exWriteRequest"
  by (intro ext) (simp add: sxWriteRequest_def exWriteRequest_def sxWriteChannels_copy)

lemma sxReadResponse_copy: "sxReadResponse = exReadResponse"
  by (simp add: sxReadResponse_def exReadResponse_def sxReadString16_def exReadString16_def sxReadString32_def
      exReadString32_def sxReadBytes32_def exReadBytes32_def statusOK_def)

lemma sxPush_copy: "sxPush = exPush"
  by (intro ext) (unfold sxPush_def exPush_def sxWriteRequest_copy sxReadResponse_copy opPush_def, rule refl)

lemma sxPop_copy: "sxPop = exPop"
  by (intro ext) (unfold sxPop_def exPop_def sxWriteRequest_copy sxReadResponse_copy opPop_def, rule refl)

lemma sxDial_copy: "sxDial = exDial"
  by (intro ext) (unfold sxDial_def exDial_def sxEnsureDaemon_def exEnsureDaemon_def, rule refl)

lemma sxDefaultSocketPath_copy: "sxDefaultSocketPath = defaultSocketPath"
  by (intro ext) (simp add: sxDefaultSocketPath_def defaultSocketPath_def)

lemmas copies = sxWriteRequest_copy sxReadResponse_copy sxPush_copy sxPop_copy sxDial_copy sxDefaultSocketPath_copy

text \<open>
  The examples differ from the program in when they start a daemon: on any network error of the dial,
  while the program asks for an error that says nobody listens.
\<close>

lemma example_starts_more_daemons:
  "shouldStartDaemon err \<Longrightarrow> sxDial (Inl err) None [True] (Inr l) path = Inr (connectTo l)"
  "sxDial (Inl (OpError ''dial unix /s'' (Syscall (Errno 13 ''permission denied'')))) None [True] (Inr l) path = Inr (connectTo l)
     \<and> newRPCClient (Inl (OpError ''dial unix /s'' (Syscall (Errno 13 ''permission denied'')))) None (Inr l) True
       = Inl (Wrap ''connect to daemon'' (OpError ''dial unix /s'' (Syscall (Errno 13 ''permission denied''))))"
  by (auto simp: sxDial_def sxEnsureDaemon_def shouldStartDaemon_def newRPCClient_def split: option.splits)

end
