(* ===== verification/ExampleStress.thy ===== *)
theory ExampleStress
  imports ExampleStressClient Stress
begin

text \<open>
  The stress example (\<open>examples/go/stress/main.go\<close>): its list of channels, its payloads, the number of
  workers, and the loops of a publisher and of a consumer, with the run-time panics Go has for an index
  out of range and a division by zero. \<open>ExampleStressRun\<close> puts them together.
\<close>

section \<open>Channels\<close>

fun trimFront :: "string \<Rightarrow> string" where
  "trimFront [] = []"
| "trimFront (c # cs) = (if c = CHR '' '' then trimFront cs else c # cs)"

function trimBack :: "string \<Rightarrow> string" where
  "trimBack part = (if part \<noteq> [] \<and> last part = CHR '' '' then trimBack (butlast part) else part)"
  by pat_completeness auto
termination
  by (relation "measure length") auto

declare trimBack.simps [simp del]

text \<open>The loop of \<open>splitCSV\<close> over the positions up to and including the length.\<close>

function csvLoop :: "string \<Rightarrow> nat \<Rightarrow> nat \<Rightarrow> string list \<Rightarrow> string list" where
  "csvLoop csv start i out =
     (if i > length csv then out
      else if i \<noteq> length csv \<and> csv ! i \<noteq> CHR '','' then csvLoop csv start (i + 1) out
      else let part = trimBack (trimFront (take (i - start) (drop start csv)))
           in csvLoop csv (i + 1) (i + 1) (if part \<noteq> [] then out @ [part] else out))"
  by pat_completeness auto
termination
  by (relation "measure (\<lambda>(csv, start, i, out). Suc (length csv) - i)") auto

declare csvLoop.simps [simp del]

definition exSplitCSV :: "string \<Rightarrow> string list" where
  "exSplitCSV csv =
     (if csv = [] then [''stress-a'']
      else let out = csvLoop csv 0 0 [] in if out = [] then [''stress-a''] else out)"

section \<open>Workers and payloads\<close>

definition exStressCounts :: "int \<Rightarrow> int \<Rightarrow> int \<Rightarrow> int \<times> int" where
  "exStressCounts workers publishers consumers =
     (if publishers > 0 \<and> consumers > 0 then (publishers, consumers)
      else let half = (if workers < 0 then - ((- workers) div 2) else workers div 2);
               p = (if half < 1 then 1 else half);
               c = i64 (workers - p)
           in (p, if c < 1 then 1 else c))"

text \<open>\<open>alphabet[(workerID+seq+i)&0x0f]\<close>.\<close>

definition hexAt :: "int \<Rightarrow> byte" where
  "hexAt k = to_bytes ''0123456789abcdef'' ! nat (and (i64 k) 0x0F)"

text \<open>Slicing with a negative bound panics.\<close>

definition exMakePayload :: "int \<Rightarrow> int \<Rightarrow> int \<Rightarrow> bytes outcome" where
  "exMakePayload workerID seq len =
     (let prefix = to_bytes (''worker='' @ dec_int workerID @ '' seq='' @ dec_int seq @ '' '') in
      if int (length prefix) \<ge> len then (if len < 0 then Panics else Ret (take (nat len) prefix))
      else Ret (prefix @ map (\<lambda>i. hexAt (workerID + seq + int i)) [length prefix..<nat len]))"

section \<open>Publishers and consumers\<close>

text \<open>The loops run as many iterations as begin before the deadline; \<open>n\<close> bounds them.\<close>

fun publishLoop ::
    "string list \<Rightarrow> int \<Rightarrow> int \<Rightarrow> rpcClient \<Rightarrow> nat \<Rightarrow> int \<Rightarrow> nat \<Rightarrow> stressStats \<Rightarrow> stressStats outcome" where
  "publishLoop channels workerID len client idx seq 0 st = Ret st"
| "publishLoop channels workerID len client idx seq (Suc n) st =
     (if idx \<ge> length channels then Panics
      else case exMakePayload workerID seq len of
             Panics \<Rightarrow> Panics
           | Ret payload \<Rightarrow>
               (case sxPush client (channels ! idx) payload of
                  (Some err, _) \<Rightarrow> Ret (st\<lparr>failures := failures st + 1\<rparr>)
                | (None, client1) \<Rightarrow>
                    publishLoop channels workerID len client1 ((idx + 1) mod length channels)
                      (i64 (seq + 1)) n (st\<lparr>pushed := pushed st + 1\<rparr>)))"

definition publisher ::
    "string list \<Rightarrow> nat \<Rightarrow> int \<Rightarrow> goerr + rpcClient \<Rightarrow> nat \<Rightarrow> stressStats \<Rightarrow> stressStats outcome" where
  "publisher channels workerID len dialled n st =
     (case dialled of
        Inl err \<Rightarrow> Ret (st\<lparr>failures := failures st + 1\<rparr>)
      | Inr client \<Rightarrow>
          if channels = [] then Panics
          else publishLoop channels (int workerID) len client (workerID mod length channels) 0 n st)"

fun consumeLoop ::
    "(string \<Rightarrow> string) \<Rightarrow> string list \<Rightarrow> int \<Rightarrow> rpcClient \<Rightarrow> nat \<Rightarrow> stressStats \<Rightarrow> stressStats" where
  "consumeLoop q channels timeout client 0 st = st"
| "consumeLoop q channels timeout client (Suc n) st =
     (case sxPop client channels timeout of
        (Inr message, client1) \<Rightarrow>
          consumeLoop q channels timeout client1 n (st\<lparr>served := served st + 1\<rparr>)
      | (Inl err, client1) \<Rightarrow>
          if error_text q err = ''timeout''
          then consumeLoop q channels timeout client1 n (st\<lparr>popTimeouts := popTimeouts st + 1\<rparr>)
          else st\<lparr>failures := failures st + 1\<rparr>)"

definition consumer ::
    "(string \<Rightarrow> string) \<Rightarrow> string list \<Rightarrow> int \<Rightarrow> goerr + rpcClient \<Rightarrow> nat \<Rightarrow> stressStats \<Rightarrow> stressStats" where
  "consumer q channels timeout dialled n st =
     (case dialled of
        Inl err \<Rightarrow> st\<lparr>failures := failures st + 1\<rparr>
      | Inr client \<Rightarrow> consumeLoop q channels timeout client n st)"

lemma example_counts_agree:
  "exStressCounts (sThreads cfg) (sPublishers cfg) (sConsumers cfg) = stressWorkerCounts cfg"
  by (simp add: exStressCounts_def stressWorkerCounts_def Let_def)

section \<open>The list of channels is what splitting and trimming gives\<close>

definition trimSpaces :: "string \<Rightarrow> string" where
  "trimSpaces s = trimBack (trimFront s)"

definition csvParts :: "string \<Rightarrow> string list" where
  "csvParts s = filter (\<lambda>p. p \<noteq> []) (map trimSpaces (splitOn CHR '','' s))"

lemma csvLoop_spec:
  "start \<le> i \<Longrightarrow> i \<le> length csv \<Longrightarrow> CHR '','' \<notin> set (take (i - start) (drop start csv)) \<Longrightarrow>
     csvLoop csv start i out = out @ csvParts (drop start csv)"
proof (induction csv start i out rule: csvLoop.induct)
  case (1 csv start i out)
  let ?here = "take (i - start) (drop start csv)"
  let ?part = "trimBack (trimFront ?here)"
  consider (more) "i \<noteq> length csv" "csv ! i \<noteq> CHR '',''" | (comma) "i < length csv" "csv ! i = CHR '',''"
    | (last) "i = length csv" using 1(4) by fastforce
  then show ?case
  proof cases
    case more
    have "take (i + 1 - start) (drop start csv) = ?here @ [csv ! i]"
      using 1(3,4) more(1) by (simp add: Suc_diff_le take_Suc_conv_app_nth)
    then show ?thesis using 1 more by (subst csvLoop.simps) auto
  next
    case comma
    have split: "drop start csv = ?here @ CHR '','' # drop (i + 1) csv"
      using 1(3) comma by (metis Suc_eq_plus1 append_take_drop_id drop_drop le_add_diff_inverse2
          Cons_nth_drop_Suc)
    have "csvLoop csv start i out = csvLoop csv (i + 1) (i + 1) (if ?part \<noteq> [] then out @ [?part] else out)"
      using 1(3,4) comma by (subst csvLoop.simps) (simp add: Let_def)
    also have "\<dots> = (if ?part \<noteq> [] then out @ [?part] else out) @ csvParts (drop (i + 1) csv)"
      using 1(2) [OF _ _ refl] comma 1(3) by simp
    also have "\<dots> = out @ csvParts (drop start csv)"
      by (subst split) (simp add: csvParts_def trimSpaces_def splitOn_append [OF 1(5)])
    finally show ?thesis .
  next
    case last
    then have "?here = drop start csv" by simp
    with 1(5) have "csvParts (drop start csv) = (if ?part \<noteq> [] then [?part] else [])"
      by (simp add: csvParts_def trimSpaces_def splitOn_no_sep)
    moreover have "csvLoop csv start i out = (if ?part \<noteq> [] then out @ [?part] else out)"
      using last by (subst csvLoop.simps) (simp add: Let_def csvLoop.simps [of csv "Suc (length csv)"])
    ultimately show ?thesis by simp
  qed
qed

lemma exSplitCSV_spec: "exSplitCSV csv = (if csvParts csv = [] then [''stress-a''] else csvParts csv)"
  using csvLoop_spec [of 0 0 csv "[]"]
  by (auto simp: exSplitCSV_def csvParts_def trimSpaces_def Let_def trimBack.simps [of "[]"])

text \<open>Text without other white space: the trimming of the example is that of the program.\<close>

definition plain_char :: "char \<Rightarrow> bool" where
  "plain_char c \<longleftrightarrow> 32 \<le> (of_char c :: nat) \<and> (of_char c :: nat) < 127"

lemma trimFront_dropWhile: "trimFront s = dropWhile (\<lambda>c. c = CHR '' '') s"
  by (induction s) auto

lemma trimBack_dropWhile: "trimBack s = rev (dropWhile (\<lambda>c. c = CHR '' '') (rev s))"
proof (induction s rule: trimBack.induct)
  case (1 s)
  show ?case
  proof (cases "s \<noteq> [] \<and> last s = CHR '' ''")
    case True
    then obtain t where "s = t @ [CHR '' '']" by (metis append_butlast_last_id)
    with 1 True show ?thesis by (subst trimBack.simps) simp
  next
    case False
    then show ?thesis by (subst trimBack.simps) (cases s rule: rev_cases; auto)
  qed
qed

lemma strip_first_plain:
  assumes "\<forall>r \<in> set rs. r = '' '' \<or> (\<exists>c \<in> set r. \<not> plain_char c)" and "\<forall>c \<in> set s. plain_char c"
  shows "strip_first rs s = (if '' '' \<in> set rs \<and> s \<noteq> [] \<and> hd s = CHR '' '' then Some (tl s) else None)"
  using assms(1)
proof (induction rs)
  case Nil
  then show ?case by simp
next
  case (Cons r rs)
  show ?case
  proof (cases "r = '' ''")
    case True
    with Cons show ?thesis by (cases s) auto
  next
    case False
    with Cons.prems obtain c where "c \<in> set r" "\<not> plain_char c" by auto
    with assms(2) have "take (length r) s \<noteq> r" by (metis in_set_takeD)
    with Cons False show ?thesis by auto
  qed
qed

lemma char_of_space: "char_of (32 :: nat) = CHR '' ''"
proof -
  have "of_char CHR '' '' = (32 :: nat)" by simp
  then show ?thesis by (metis char_of_char)
qed

lemma space_runes_plain:
  "\<forall>r \<in> set space_runes. r = '' '' \<or> (\<exists>c \<in> set r. \<not> plain_char c)"
  "\<forall>r \<in> set (map rev space_runes). r = '' '' \<or> (\<exists>c \<in> set r. \<not> plain_char c)"
  "'' '' \<in> set space_runes" "'' '' \<in> set (map rev space_runes)"
  by (simp_all add: space_runes_def plain_char_def char_of_space)

lemma trimLeft_plain: "\<forall>c \<in> set s. plain_char c \<Longrightarrow> trimLeft s = dropWhile (\<lambda>c. c = CHR '' '') s"
proof (induction s)
  case Nil
  then show ?case by (subst trimLeft.simps) (simp add: strip_first_plain [OF space_runes_plain(1)])
next
  case (Cons c s)
  then show ?case
    by (subst trimLeft.simps) (simp add: strip_first_plain [OF space_runes_plain(1)] space_runes_plain(3))
qed

lemma trimRightRev_plain: "\<forall>c \<in> set s. plain_char c \<Longrightarrow> trimRightRev s = dropWhile (\<lambda>c. c = CHR '' '') s"
proof (induction s)
  case Nil
  then show ?case by (subst trimRightRev.simps) (simp add: strip_first_plain [OF space_runes_plain(2)])
next
  case (Cons c s)
  then show ?case
    by (subst trimRightRev.simps)
       (simp add: strip_first_plain [OF space_runes_plain(2)] space_runes_plain(4) del: set_map)
qed

lemma trimSpace_plain: "\<forall>c \<in> set s. plain_char c \<Longrightarrow> trimSpace s = trimSpaces s"
  using trimRightRev_plain [of "rev (dropWhile (\<lambda>c. c = CHR '' '') s)"] set_dropWhileD [of _ "\<lambda>c. c = CHR '' ''" s]
  by (simp add: trimSpace_def trimSpaces_def trimLeft_plain trimFront_dropWhile trimBack_dropWhile)

lemma splitOn_set: "p \<in> set (splitOn sep s) \<Longrightarrow> set p \<subseteq> set s"
proof (induction s arbitrary: p)
  case Nil
  then show ?case by simp
next
  case (Cons c s)
  show ?case
  proof (cases "c = sep")
    case True
    with Cons show ?thesis by auto
  next
    case False
    obtain x xs where x: "splitOn sep s = x # xs" by (cases "splitOn sep s") simp_all
    with Cons.prems False have "p = c # x \<or> p \<in> set xs" by simp
    with Cons.IH [of x] Cons.IH [of p] x show ?thesis by auto
  qed
qed

text \<open>
  Property C39. On text of printable ASCII characters, the index loop of the example finds the channels
  that the program's \<open>splitCSV\<close> finds with the standard library, and the default channel when there
  are none.
\<close>

theorem example_channels_agree:
  assumes "\<forall>c \<in> set csv. plain_char c"
  shows "exSplitCSV csv = (if splitCSV csv = [] then [''stress-a''] else splitCSV csv)"
proof -
  have "trimSpace p = trimSpaces p" if "p \<in> set (splitOn CHR '','' csv)" for p
    using splitOn_set [OF that] assms by (intro trimSpace_plain) auto
  then have "map trimSpace (splitOn CHR '','' csv) = map trimSpaces (splitOn CHR '','' csv)" by (rule map_cong [OF refl])
  then have "splitCSV csv = csvParts csv" by (simp only: splitCSV_def csvParts_def)
  then show ?thesis by (simp add: exSplitCSV_spec)
qed

lemma example_channels_agree_witness:
  "exSplitCSV '' a, ,b'' = [''a'', ''b''] \<and> splitCSV '' a, ,b'' = [''a'', ''b'']"
proof -
  have ex: "exSplitCSV '' a, ,b'' = [''a'', ''b'']" by code_simp
  have "\<forall>c \<in> set '' a, ,b''. plain_char c" by (simp add: plain_char_def)
  from example_channels_agree [OF this] ex show ?thesis by (auto split: if_splits)
qed

section \<open>Publishers never panic on their channels\<close>

lemma exMakePayload_length:
  "0 \<le> len \<Longrightarrow> \<exists>p. exMakePayload workerID seq len = Ret p \<and> length p = nat len"
  by (auto simp: exMakePayload_def Let_def)

lemma exMakePayload_negative: "len < 0 \<Longrightarrow> exMakePayload workerID seq len = Panics"
  by (simp add: exMakePayload_def Let_def)

lemma hexAt_digit: "hexAt k \<in> set (to_bytes ''0123456789abcdef'')"
proof -
  have "0 \<le> and (i64 k) 15" by simp
  moreover have "and (i64 k) 15 = i64 k mod 2 ^ 4" using take_bit_eq_mask [of 4 "i64 k"] by (simp add: take_bit_eq_mod mask_eq_exp_minus_1)
  ultimately have "nat (and (i64 k) 15) < 16" by simp
  then show ?thesis by (auto simp: hexAt_def intro!: nth_mem)
qed

lemma publishLoop_returns:
  "idx < length channels \<Longrightarrow> 0 \<le> len \<Longrightarrow> publishLoop channels workerID len client idx seq n st \<noteq> Panics"
proof (induction n arbitrary: client idx seq st)
  case 0
  then show ?case by simp
next
  case (Suc n)
  then obtain p where p: "exMakePayload workerID seq len = Ret p" using exMakePayload_length by blast
  have "(idx + 1) mod length channels < length channels" using Suc.prems by (intro mod_less_divisor) auto
  with Suc p show ?case by (auto split: prod.splits option.splits)
qed

lemma publisher_panics_iff:
  assumes "channels \<noteq> []"
  shows "publisher channels workerID len dialled n st = Panics
    \<longleftrightarrow> len < 0 \<and> (\<exists>client m. dialled = Inr client \<and> n = Suc m)"
proof (cases dialled)
  case (Inl err)
  then show ?thesis by (simp add: publisher_def)
next
  case (Inr client)
  have idx: "workerID mod length channels < length channels" using assms by simp
  consider "n = 0" | (run) m where "n = Suc m" by (cases n)
  then show ?thesis
  proof cases
    case run
    show ?thesis
    proof (cases "len < 0")
      case True
      with assms run Inr idx show ?thesis by (simp add: publisher_def exMakePayload_negative not_le)
    next
      case False
      with publishLoop_returns [OF idx] assms Inr show ?thesis by (simp add: publisher_def del: publishLoop.simps)
    qed
  qed (use assms Inr in \<open>simp add: publisher_def\<close>)
qed

end
