(* ===== verification/ExampleStressRun.thy ===== *)
theory ExampleStressRun
  imports ExampleStress StressRun
begin

text \<open>
  The \<open>main\<close> of the stress example over the values of its flags: the connection and the pop it begins with,
  its workers joined on the shared counters, and its report. The \<open>flag\<close> package is not modelled. A panic of
  one worker ends the program.
\<close>

section \<open>The flags\<close>

record exFlags =
  fSocket :: string
  fDuration :: int
  fThreads :: int
  fPublishers :: int
  fConsumers :: int
  fChannels :: string
  fPopTimeout :: int
  fPayloadSize :: int
  fFormat :: string

definition exFlagDefaults :: "env \<Rightarrow> exFlags" where
  "exFlagDefaults env =
     \<lparr>fSocket = sxDefaultSocketPath env, fDuration = 10000000000, fThreads = 100, fPublishers = 0, fConsumers = 0,
      fChannels = ''stress-a,stress-b,stress-c,stress-d'', fPopTimeout = 200000000, fPayloadSize = 128,
      fFormat = ''text''\<rparr>"

section \<open>The workers joined\<close>

fun exJoined :: "(stressStats \<Rightarrow> stressStats outcome) list \<Rightarrow> stressStats \<Rightarrow> stressStats outcome" where
  "exJoined [] st = Ret st"
| "exJoined (w # ws) st = (case w st of Panics \<Rightarrow> Panics | Ret st1 \<Rightarrow> exJoined ws st1)"

definition exWorkers ::
    "(string \<Rightarrow> string) \<Rightarrow> string list \<Rightarrow> exFlags \<Rightarrow> int \<times> int \<Rightarrow> (nat \<Rightarrow> (goerr + rpcClient) \<times> nat)
     \<Rightarrow> (nat \<Rightarrow> (goerr + rpcClient) \<times> nat) \<Rightarrow> (stressStats \<Rightarrow> stressStats outcome) list" where
  "exWorkers q channels flags counts pub con =
     map (\<lambda>i. publisher channels i (fPayloadSize flags) (fst (pub i)) (snd (pub i))) [0..<nat (fst counts)]
     @ map (\<lambda>i st. Ret (consumer q channels (fPopTimeout flags) (fst (con i)) (snd (con i)) st))
         [0..<nat (snd counts)]"

section \<open>The report\<close>

definition exSeconds :: "int \<Rightarrow> rat" where
  "exSeconds elapsed = (if secondsOf elapsed \<le> 0 then 1 else secondsOf elapsed)"

text \<open>A rate of a count per second.\<close>

definition rate :: "nat \<Rightarrow> rat \<Rightarrow> rat" where
  "rate k seconds = float64 (float64 (of_nat k) / seconds)"

definition exText :: "string list \<Rightarrow> int \<times> int \<Rightarrow> rat \<Rightarrow> stressStats \<Rightarrow> string" where
  "exText channels counts elapsed st =
     concat (map line
       [''stress duration: '' @ fixedDec 3 elapsed @ ''s'',
        ''threads: '' @ dec_int (i64 (fst counts + snd counts)) @ '' ('' @ dec_int (fst counts) @ '' producers, ''
          @ dec_int (snd counts) @ '' consumers)'',
        ''channels: '' @ joinWith '', '' channels,
        ''messages pushed: '' @ dec (pushed st),
        ''messages served: '' @ dec (served st),
        ''pop timeouts: '' @ dec (popTimeouts st),
        ''client failures: '' @ dec (failures st),
        ''push rate: '' @ fixedDec 2 (rate (pushed st) elapsed) @ '' msg/s'',
        ''serve rate: '' @ fixedDec 2 (rate (served st) elapsed) @ '' msg/s''])"

text \<open>The keys of a map are written in order.\<close>

definition exJSON :: "string list \<Rightarrow> int \<times> int \<Rightarrow> rat \<Rightarrow> stressStats \<Rightarrow> string" where
  "exJSON channels counts elapsed st =
     jsonObject
       [(''channels'', jsonStrings channels), (''client_failures'', dec (failures st)),
        (''consumers'', dec_int (snd counts)), (''duration_seconds'', jsonFloat elapsed),
        (''messages_pushed'', dec (pushed st)), (''messages_served'', dec (served st)),
        (''pop_timeouts'', dec (popTimeouts st)), (''publishers'', dec_int (fst counts)),
        (''push_rate'', jsonFloat (rate (pushed st) elapsed)), (''serve_rate'', jsonFloat (rate (served st) elapsed)),
        (''threads'', dec_int (i64 (fst counts + snd counts)))]"

text \<open>
  \<open>warm\<close> is the result of the first \<open>Dial\<close>; what its pop answers is ignored. \<open>pub\<close> and \<open>con\<close> give each worker's
  \<open>Dial\<close> and the iterations it begins before the deadline.
\<close>

definition exStressMain ::
    "(string \<Rightarrow> string) \<Rightarrow> exFlags \<Rightarrow> goerr + rpcClient \<Rightarrow> (nat \<Rightarrow> (goerr + rpcClient) \<times> nat)
     \<Rightarrow> (nat \<Rightarrow> (goerr + rpcClient) \<times> nat) \<Rightarrow> int \<Rightarrow> result outcome" where
  "exStressMain q flags warm pub con elapsed =
     (case warm of
        Inl err \<Rightarrow> Ret \<lparr>code = 1, stdout = [], stderr = line (error_text q err)\<rparr>
      | Inr client \<Rightarrow>
          let channels = exSplitCSV (fChannels flags);
              counts = exStressCounts (fThreads flags) (fPublishers flags) (fConsumers flags)
          in (case exJoined (exWorkers q channels flags counts pub con) noStats of
                Panics \<Rightarrow> Panics
              | Ret st \<Rightarrow>
                  Ret (success (to_bytes
                    (if fFormat flags = ''json'' then exJSON channels counts (exSeconds elapsed) st
                     else exText channels counts (exSeconds elapsed) st)))))"

section \<open>When the example panics\<close>

lemma exJoined_panics:
  assumes "\<And>w st st'. w \<in> set ws \<Longrightarrow> w st = Panics \<longleftrightarrow> w st' = Panics"
  shows "exJoined ws st = Panics \<longleftrightarrow> (\<exists>w \<in> set ws. w noStats = Panics)"
  using assms
proof (induction ws arbitrary: st)
  case Nil
  then show ?case by simp
next
  case (Cons w ws)
  have "w st = Panics \<longleftrightarrow> w noStats = Panics" by (rule Cons.prems) simp
  moreover have "exJoined ws st' = Panics \<longleftrightarrow> (\<exists>w \<in> set ws. w noStats = Panics)" for st'
    by (rule Cons.IH) (rule Cons.prems, simp)
  ultimately show ?case by (auto split: outcome.split)
qed

lemma bex_workers:
  "(\<exists>w \<in> set (map f [0..<n] @ map (\<lambda>i st. Ret (g i st)) [0..<m]). w x = Panics) \<longleftrightarrow> (\<exists>i < n. f i x = Panics)"
  by (simp add: bex_Un) (simp add: Bex_def)

lemma exSplitCSV_nonempty: "exSplitCSV csv \<noteq> []"
  by (simp add: exSplitCSV_spec)


section \<open>The life of a consumer\<close>

lemma sxPop_reads:
  assumes v: "popsOK channels timeout" and w: "healthy (rpcWriter client)" and r: "valid_response resp"
    and d: "rpcReader client = \<lparr>rdata = response_frame resp @ rest, rend = EOF\<rparr>"
  obtains w' where "sxPop client channels timeout
      = (if \<not> respOK resp then Inl (Text (respError resp)) else Inr (respPayload resp),
         client\<lparr>rpcReader := \<lparr>rdata = rest, rend = EOF\<rparr>, rpcWriter := w'\<rparr>)" and "healthy w'"
proof -
  from exWriteRequest_healthy [OF v [unfolded popsOK_def] w] obtain w' where
    w': "exWriteRequest opPop channels [] (milliseconds timeout) (rpcWriter client) = (None, w')" "healthy w'"
    by (auto simp: op_byte_def)
  have "rdata (rpcReader client) = response_frame resp @ rest" using d by simp
  from example_exchange [OF r this] w' d show thesis
    by (intro that [of w']) (simp_all add: copies exPop_def)
qed

text \<open>
  What a consumer of the example counts on a connection that carries messages and then at most one error:
  any error ends it, and a timeout does so at its next pop.
\<close>

definition exConsumerLife :: "(string \<Rightarrow> string) \<Rightarrow> nat \<Rightarrow> nat \<Rightarrow> goerr option \<Rightarrow> stressStats" where
  "exConsumerLife q n msgs final =
     \<lparr>pushed = 0, served = min n msgs,
      popTimeouts = (if msgs < n \<and> timed_out q final then 1 else 0),
      failures = (if timed_out q final then if msgs + 1 < n then 1 else 0 else if msgs < n then 1 else 0)\<rparr>"

lemma error_text_timeout: "error_text q ErrTimeout = ''timeout''"
  by simp

lemma sxPop_ended:
  assumes c: "carries q client [] None" and v: "popsOK channels timeout"
  obtains c' where "sxPop client channels timeout = (Inl EOF, c')"
proof -
  from c have "healthy (rpcWriter client)" by (simp add: carries_def)
  from exWriteRequest_healthy [OF v [unfolded popsOK_def] this] obtain w' where
    w': "exWriteRequest opPop channels [] (milliseconds timeout) (rpcWriter client) = (None, w')"
    by (auto simp: op_byte_def)
  have "exReadResponse (rpcReader client) = (Inl EOF, rpcReader client)"
    using c by (simp add: carries_def exReadResponse_def rd_bind_def readByte_def)
  with w' show thesis by (intro that) (simp add: copies exPop_def)
qed

lemma sxPop_message:
  assumes c: "carries q client (d # msgs) final" and v: "popsOK channels timeout"
  obtains c' where "sxPop client channels timeout = (Inr (dPayload d), c')" and "carries q c' msgs final"
proof -
  let ?rest = "concat (map (\<lambda>d. response_frame (popResponse q (Inr d))) msgs)
      @ (case final of None \<Rightarrow> [] | Some err \<Rightarrow> response_frame (popResponse q (Inl err)))"
  have "healthy (rpcWriter client)" "valid_response (popResponse q (Inr d))"
    "rpcReader client = \<lparr>rdata = response_frame (popResponse q (Inr d)) @ ?rest, rend = EOF\<rparr>"
    using c by (simp_all add: carries_def)
  from sxPop_reads [OF v this] obtain w' where
    pop: "sxPop client channels timeout
      = (Inr (dPayload d), client\<lparr>rpcReader := \<lparr>rdata = ?rest, rend = EOF\<rparr>, rpcWriter := w'\<rparr>)" "healthy w'"
    by (auto simp: popResponse_def)
  show thesis by (rule that [OF pop(1)]) (use c pop(2) in \<open>simp add: carries_def\<close>)
qed

lemma sxPop_final:
  assumes c: "carries q client [] (Some err)" and v: "popsOK channels timeout"
  obtains c' where "sxPop client channels timeout = (Inl (Text (error_text q err)), c')" and "carries q c' [] None"
proof -
  have "healthy (rpcWriter client)" "valid_response (popResponse q (Inl err))"
    "rpcReader client = \<lparr>rdata = response_frame (popResponse q (Inl err)) @ [], rend = EOF\<rparr>"
    using c by (simp_all add: carries_def)
  from sxPop_reads [OF v this] obtain w' where
    pop: "sxPop client channels timeout = (Inl (Text (error_text q err)),
        client\<lparr>rpcReader := \<lparr>rdata = [], rend = EOF\<rparr>, rpcWriter := w'\<rparr>)" "healthy w'"
    by (simp only: popResponse_fields simp_thms if_True) blast
  show thesis by (rule that [OF pop(1)]) (use pop(2) in \<open>simp add: carries_def\<close>)
qed

lemma example_consumer_life:
  "carries q client msgs final \<Longrightarrow> popsOK channels timeout \<Longrightarrow>
     consumeLoop q channels timeout client n st = addStats st (exConsumerLife q n (length msgs) final)"
proof (induction msgs arbitrary: client n st)
  case Nil
  consider "n = 0" | (ended) m where "n = Suc m" "final = None"
    | (err) m err where "n = Suc m" "final = Some err" by (cases n; cases final) auto
  then show ?case
  proof cases
    case ended
    from sxPop_ended [OF Nil(1) [unfolded ended(2)] Nil(2)] obtain c where "sxPop client channels timeout = (Inl EOF, c)" .
    with ended show ?thesis by (auto simp: exConsumerLife_def timed_out_def intro!: stats_eqI)
  next
    case err
    from sxPop_final [OF Nil(1) [unfolded err(2)] Nil(2)] obtain c where
      c: "sxPop client channels timeout = (Inl (Text (error_text q err)), c)" "carries q c [] None" .
    from sxPop_ended [OF c(2) Nil(2)] obtain c2 where c2: "sxPop c channels timeout = (Inl EOF, c2)" .
    show ?thesis
      using err c(1) c2 by (cases m) (auto simp: exConsumerLife_def timed_out_def intro!: stats_eqI)
  qed (auto simp: exConsumerLife_def intro!: stats_eqI)
next
  case (Cons d msgs)
  show ?case
  proof (cases n)
    case 0
    then show ?thesis by (auto simp: exConsumerLife_def intro!: stats_eqI)
  next
    case (Suc m)
    from sxPop_message [OF Cons.prems] obtain c where
      c: "sxPop client channels timeout = (Inr (dPayload d), c)" "carries q c msgs final" .
    from Suc c(1) have "consumeLoop q channels timeout client n st
        = consumeLoop q channels timeout c m (st\<lparr>served := served st + 1\<rparr>)" by simp
    also have "\<dots> = addStats (st\<lparr>served := served st + 1\<rparr>) (exConsumerLife q m (length msgs) final)"
      by (rule Cons.IH [OF c(2) Cons.prems(2)])
    also have "\<dots> = addStats st (exConsumerLife q n (length (d # msgs)) final)"
      using Suc by (auto simp: exConsumerLife_def intro!: stats_eqI)
    finally show ?thesis .
  qed
qed

text \<open>
  The two load generators count alike, but for an error other than a timeout: the example's consumer
  stops at it, the program's goes on to a second failure.
\<close>

lemma consumers_count_alike:
  assumes "carries q client msgs final" and "popsOK channels timeout"
    and "timed_out q final \<or> final = None \<or> n \<le> length msgs + 1"
  shows "consumeLoop q channels timeout client n st = consumerLoop q client channels timeout n st"
  using assms by (auto simp: example_consumer_life consumer_life exConsumerLife_def consumerLife_def timed_out_def)

end
