(* ===== verification/Spec2Isabelle.thy ===== *)
theory Spec2Isabelle
  imports ProtocolProps BrokerProps BrokerLaps ServerProps CliProps Client ConnWatcher Notifier Serve
    StressRun ExampleClient ExampleStressRun
begin

text \<open>
  atomic-queue: a message queue for one host. A daemon listens on a Unix socket; clients push a message
  to a named channel and pop the next message of one of several channels, waiting for it if they ask to.

  \<^bold>\<open>The parts of the program and how they interact.\<close> \<open>broker.go\<close> keeps the queues, the waiting pops
  and the byte cap behind one mutex, with Go channels for the messages handed to waiting pops and for the
  signal that room has become free. \<open>protocol.go\<close> writes and reads the frames of requests and responses.
  \<open>main.go\<close> holds the daemon (\<open>serve\<close> and one \<open>handleConn\<close> per connection, which reads a request, calls
  the broker and writes the response), the client (\<open>rpcClient\<close>, which starts a daemon where none
  listens), the command line, the validation of channels and payloads and the notices to the system log.
  \<open>conn_watcher.go\<close> cancels the context of a connection whose peer has gone. \<open>stress.go\<close> is a load
  generator, and \<open>examples/go\<close> holds a stand-alone client and a load generator with their own copy of the
  protocol.

  \<^bold>\<open>What models what.\<close>
  \<^item> \<open>Prelude\<close>: bytes, strings as byte sequences, \<open>int64\<close> with its wrap-around written out (\<open>i64\<close>), operations
    that can panic, executions of labelled transition systems, the locale \<open>transition_invariant\<close>, which every
    step relation of the development interprets, and the locale \<open>scheduler\<close> of the executable schedulers. \<open>GoErrors\<close>: error values, their texts, \<open>errors.Is\<close>.
    \<open>GoIO\<close>: \<open>bufio\<close> readers and writers, \<open>io.ReadFull\<close>, \<open>encoding/binary\<close>. \<open>Codec\<close>: the locale of a frame
    and its reader (decoding and acceptance), interpreted for every field and for both frames. \<open>GoStrings\<close>:
    \<open>regexp\<close>, \<open>strings\<close>, \<open>strconv\<close>. \<open>Duration\<close>: \<open>time.ParseDuration\<close>, with \<open>float64\<close> as correctly rounded
    rationals; the fuel of its loop is the length of the text, of which every pass consumes a part, and
    running out of it is excluded by \<open>parseDuration\<close>'s lemma.
  \<^item> \<open>Validate\<close>, \<open>Protocol\<close>, \<open>ProtocolProps\<close>: \<open>validateChannel\<close>, \<open>validatePayload\<close> and \<open>protocol.go\<close>.
  \<^item> \<open>Broker\<close>: each critical section of \<open>broker.go\<close> as one function (\<open>pushLocked\<close>, \<open>popLocked\<close>,
    \<open>removeWaiterLocked\<close>); drain signals are numbered in the order they are made, a waiter's number is its
    pointer and its reply channel. \<open>BrokerInv\<close>: the invariant of that state and what each section does
    under it. \<open>MessageStore\<close>, \<open>BrokerStore\<close>: the contract of a sequential store as a locale and its
    interpretation on the broker. \<open>BrokerSys\<close>: any number of goroutines inside \<open>Push\<close> and \<open>Pop\<close>, one
    rule per segment between lock operations and channel operations and per arm of each \<open>select\<close>.
    \<open>BrokerSafety\<close>, \<open>BrokerHistory\<close>: its invariants (who owns which waiter, what is in flight) and its
    histories. \<open>BrokerSched\<close>: an executable scheduler, sound and complete for the step relation, and the
    concrete runs. \<open>BrokerProps\<close>, \<open>BrokerLaps\<close>: the properties, the last one that every call ends.
  \<^item> \<open>Server\<close>: \<open>handleConn\<close> (\<open>receive\<close> up to the broker call, \<open>respond\<close> after it) and \<open>serve\<close>'s accept loop
    over the concurrent broker, with connections that break, peers that leave, deadlines and signals.
    \<open>ServerInv\<close>: every execution of the daemon is one of the broker. \<open>ServerLedger\<close>: the locale of a
    ledger and its interpretations for pushes, pops and the bytes on the wire. \<open>ServerSched\<close>: its
    scheduler and runs. \<open>ServerProps\<close>: the properties.
  \<^item> \<open>Serve\<close>: the system calls of \<open>serve\<close> around its accept loop, for several daemons on the same path at
    once. \<open>Cli\<close>, \<open>CliProps\<close>: the environment, the options and the subcommands with what they print and
    their exit codes. \<open>Client\<close>: dialling, starting the daemon, one request and its response.
    \<open>ConnWatcher\<close>: the watcher among connections and a kernel that reuses descriptor numbers. \<open>Notifier\<close>:
    the rate-limited notices under concurrent callbacks. \<open>Stress\<close>: the options, workers, payloads and
    loops of the stress command. \<open>Report\<close>: what the reports use of \<open>time\<close>, \<open>fmt\<close> and \<open>encoding/json\<close>
    (\<open>Duration.String\<close>, \<open>%.2f\<close>, the shortest decimal of a \<open>float64\<close>, escapes). \<open>StressRun\<close>: \<open>runStress\<close>, from
    the options to the report. \<open>ExampleClient\<close>: the stand-alone client. \<open>ExampleStressClient\<close>, \<open>ExampleStress\<close>,
    \<open>ExampleStressRun\<close>: the stress example, its copy of the client, its workers and its \<open>main\<close>.

  \<^bold>\<open>What is shown.\<close>
  Of the broker: on every channel each accepted message is exactly once returned, queued or on its way;
  channels are first in, first out; the byte counter is exact and within the cap; a waiting pop has
  nothing it could take; a pop returns a channel it asked for; nothing panics; and every call ends within a
  number of its own segments that only the messages popped meanwhile increase. Of the daemon: the same end
  to end, up to the bytes on the wire, and a refinement into the broker. Of the protocol: round trips,
  exact acceptance, and what the stand-alone client does the same and does not check. Of the process: who
  can reach the socket, that a daemon cleans up, and that one that serves undisturbed stays the only one.
  Of the command line: that every cap it accepts is one the broker's theorems cover, that options can be
  given in any order, exit codes and the way of a timeout from the option to the daemon's deadline. Of the
  load generators: what a run reports, as a function of what its connections carry, and when it panics.
  Some theorems are about what the program does not do: a push and a pop on one channel can both keep
  waiting; a message can be acknowledged and then lost to a consumer that has gone; a connection ends after
  any error, which the load generators do not expect; an event of a closed connection can cancel the next
  one; two daemons started together can displace each other; arithmetic on caps and timeouts wraps.

  \<^bold>\<open>Bounds.\<close> Executions are finite but of any length, over any number of goroutines, connections,
  daemons and callbacks. The loops that run until a deadline take the number of their iterations as an
  argument and the statements hold for every number. Concrete runs use small caps and payloads.

  \<^bold>\<open>Not modelled.\<close> The Go scheduler's fairness and real time: a deadline or a cancellation may come at
  any step. The copying of a payload in \<open>Push\<close> (values are not aliased here). \<open>%q\<close> needs Go's Unicode
  tables and is a parameter. What the operating system answers is an argument or a step. The counters of the
  load generators are unbounded here and 64 bits wide there. The \<open>flag\<close> package, and the PHP and Python
  clients, scripts and service files.
\<close>

end
